theory Spec2Isabelle
  imports Complex_Main
begin

section \<open>Python values used by the script\<close>

text \<open>
  The script \<^verbatim>\<open>scripts/generate_synth_ideas.py\<close> is a nested loop over literal tables
  that draws from Python's \<^verbatim>\<open>random\<close> module and writes rows through \<^verbatim>\<open>csv.writer\<close>.
  Exceptions are values of \<open>error\<close>; a computation that may raise returns
  \<open>error + 'a\<close>, with \<open>Inl\<close> for the exception.
\<close>

datatype error = ZeroDivisionError | IndexError | ValueError

subsection \<open>Strings\<close>

text \<open>
  A Python \<^verbatim>\<open>str\<close> is a sequence of code points. Every code point of the literal tables is
  below 256, so a \<open>char\<close> holds one code point (not a UTF-8 byte) and \<open>length\<close> counts as
  Python's \<^verbatim>\<open>len\<close> does. \<open>lower_char\<close> is \<^verbatim>\<open>str.lower\<close> on that range: the ASCII capitals
  and the Latin-1 capitals U+00C0..U+00DE (U+00D7, the multiplication sign, apart) move
  up by 32.
\<close>

definition lower_char :: "char \<Rightarrow> char" where
  "lower_char c =
     (let n = (of_char c :: nat)
      in if (65 \<le> n \<and> n \<le> 90) \<or> (192 \<le> n \<and> n \<le> 222 \<and> n \<noteq> 215)
         then char_of (n + 32) else c)"

definition lower :: "string \<Rightarrow> string" where
  "lower s = map lower_char s"

fun startswith :: "string \<Rightarrow> string \<Rightarrow> bool" where
  "startswith s [] = True"
| "startswith [] (c # cs) = False"
| "startswith (x # xs) (c # cs) = (x = c \<and> startswith xs cs)"

text \<open>\<open>str_contains sub s\<close> is Python's \<^verbatim>\<open>sub in s\<close> on strings.\<close>

fun str_contains :: "string \<Rightarrow> string \<Rightarrow> bool" where
  "str_contains sub [] = (sub = [])"
| "str_contains sub (c # cs) = (startswith (c # cs) sub \<or> str_contains sub cs)"

text \<open>\<open>join sep xs\<close> is \<^verbatim>\<open>sep.join(xs)\<close>; \<open>split_on c s\<close> is \<^verbatim>\<open>s.split(c)\<close> for a
  one-character separator.\<close>

fun join :: "string \<Rightarrow> string list \<Rightarrow> string" where
  "join sep [] = []"
| "join sep [x] = x"
| "join sep (x # y # ys) = x @ sep @ join sep (y # ys)"

fun split_on :: "char \<Rightarrow> string \<Rightarrow> string list" where
  "split_on sep [] = [[]]"
| "split_on sep (c # cs) =
     (if c = sep then [] # split_on sep cs
      else (case split_on sep cs of
              [] \<Rightarrow> [[c]]
            | w # ws \<Rightarrow> (c # w) # ws))"

text \<open>\<^verbatim>\<open>str(n)\<close> on integers, as \<^verbatim>\<open>csv.writer\<close> applies it to a non-string field.\<close>

fun str_nat :: "nat \<Rightarrow> string" where
  "str_nat n =
     (if n < 10 then [char_of (48 + n)]
      else str_nat (n div 10) @ [char_of (48 + n mod 10)])"

definition str_int :: "int \<Rightarrow> string" where
  "str_int n = (if n < 0 then CHR ''-'' # str_nat (nat (- n)) else str_nat (nat n))"

subsection \<open>The random source\<close>

text \<open>
  The module-level generator of \<^verbatim>\<open>random\<close> is the only state the script threads. It is an
  infinite sequence of raw draws \<open>g 0, g 1, \<dots>\<close>, passed explicitly; each primitive
  consumes one draw and returns the rest. \<open>random_random\<close> returns the numerator \<open>k < 2 ^ 53\<close> of the float
  \<open>k / 2 ^ 53\<close> that \<^verbatim>\<open>random.random()\<close> yields, so that a comparison with \<open>0.5\<close> is the
  exact comparison of \<open>k\<close> with \<open>2 ^ 52\<close>. \<open>randbelow n\<close> is the internal
  \<^verbatim>\<open>_randbelow(n)\<close>: an integer in \<open>[0, n)\<close>, here the draw reduced modulo \<open>n\<close>.
\<close>

type_synonym rng = "nat \<Rightarrow> nat"

definition draw :: "rng \<Rightarrow> nat \<times> rng" where
  "draw g = (g 0, \<lambda>i. g (Suc i))"

definition random_random :: "rng \<Rightarrow> nat \<times> rng" where
  "random_random g = (case draw g of (x, g') \<Rightarrow> (x mod 2 ^ 53, g'))"

definition randbelow :: "nat \<Rightarrow> rng \<Rightarrow> nat \<times> rng" where
  "randbelow n g = (case draw g of (x, g') \<Rightarrow> (x mod n, g'))"

text \<open>\<^verbatim>\<open>random.choice(seq)\<close>: IndexError on an empty sequence.\<close>

definition choice :: "'a list \<Rightarrow> rng \<Rightarrow> error + ('a \<times> rng)" where
  "choice seq g =
     (if length seq = 0 then Inl IndexError
      else (case randbelow (length seq) g of (j, g') \<Rightarrow> Inr (seq ! j, g')))"

text \<open>\<^verbatim>\<open>random.randint(a, b)\<close> is \<^verbatim>\<open>randrange(a, b + 1)\<close>: ValueError on an empty range.\<close>

definition randint :: "int \<Rightarrow> int \<Rightarrow> rng \<Rightarrow> error + (int \<times> rng)" where
  "randint a b g =
     (let width = b + 1 - a
      in if width > 0
         then (case randbelow (nat width) g of (r, g') \<Rightarrow> Inr (a + int r, g'))
         else Inl ValueError)"

text \<open>
  \<^verbatim>\<open>random.sample(population, k)\<close>. For a population of at most 21 entries (every genre
  list has 8) CPython copies the population into a pool and, \<open>k\<close> times, draws an index
  \<open>j\<close> below the number of entries left, takes \<open>pool[j]\<close> and moves the last entry left
  into position \<open>j\<close>. \<open>sample_pool pool m k\<close> is that loop with \<open>m\<close> entries left.
\<close>

fun sample_pool :: "'a list \<Rightarrow> nat \<Rightarrow> nat \<Rightarrow> rng \<Rightarrow> 'a list \<times> rng" where
  "sample_pool pool m 0 g = ([], g)"
| "sample_pool pool m (Suc k) g =
     (case randbelow m g of (j, g') \<Rightarrow>
        (case sample_pool (pool[j := pool ! (m - 1)]) (m - 1) k g' of (rest, g'') \<Rightarrow>
           (pool ! j # rest, g'')))"

definition sample :: "'a list \<Rightarrow> nat \<Rightarrow> rng \<Rightarrow> error + ('a list \<times> rng)" where
  "sample population k g =
     (if k \<le> length population
      then Inr (sample_pool population (length population) k g)
      else Inl ValueError)"

text \<open>Indexing a list at \<^verbatim>\<open>i % len(xs)\<close>: the modulo raises on an empty list, the
  subscript raises out of range.\<close>

definition index_mod :: "'a list \<Rightarrow> nat \<Rightarrow> error + 'a" where
  "index_mod xs i =
     (if length xs = 0 then Inl ZeroDivisionError
      else (let j = i mod length xs
            in if j < length xs then Inr (xs ! j) else Inl IndexError))"

section \<open>The literal tables\<close>

record domain =
  range_dom :: "int \<times> int"
  prefixes :: "string list"
  synthesis_types :: "string list"
  genres :: "string list"

definition computer_history :: domain where
  "computer_history = \<lparr>
     range_dom = (1, 100),
     prefixes =
      [''Modem'', ''Floppy'', ''CRT'', ''Dial-Up'', ''Dot Matrix'', ''Punch Card'',
       ''ENIAC'', ''BBS'', ''Hard Drive'', ''Serial'', ''Parallel'', ''Vacuum Tube'',
       ''Transistor'', ''Calculator'', ''Atari'', ''Teletext'', ''Fax'', ''Boot'',
       ''Command Line'', ''Tape'', ''Memory'', ''Network'', ''CPU'', ''Sinclair'',
       ''TRS-80'', ''Commodore'', ''BBC Micro'', ''Apple II'', ''Plotter'', ''OCR'',
       ''Paper Tape'', ''Telex'', ''Morse'', ''Telegraph'', ''Rectifier'', ''Triode'',
       ''Cathode'', ''Phosphor'', ''Scan Line'', ''NTSC'', ''Magnetic'', ''Ferrite'',
       ''Spark Gap'', ''Crystal Radio'', ''Phonograph'', ''Shellac'', ''Wax Cylinder'',
       ''Bakelite'', ''PCB Trace'', ''Solder'', ''Potentiometer'', ''Stepper'', ''Servo'',
       ''PWM'', ''Capacitor'', ''Transistor'', ''Diode'', ''MOSFET'', ''Zener'',
       ''Thermistor'', ''Photoresistor'', ''Solar Cell'', ''LED'', ''Optocoupler'', ''LDR'',
       ''Tape Saturation'', ''Demagnetization'', ''Hysteresis'', ''Eddy Current'',
       ''Transformer'', ''Y2K'', ''Blue Screen'', ''Defrag'', ''Dial Tone'', ''Touch Tone'',
       ''Busy Signal'', ''Ring Cycle'', ''Off Hook'', ''Area Code'', ''Long Distance'',
       ''Rotary'', ''Phone Booth'', ''Answering Machine'', ''Cordless'',
       ''Acoustic Coupler'', ''Party Line'', ''Operator'', ''Time Announce'',
       ''Weather Service'', ''Emergency'', ''Payphone'', ''Phone Card'', ''Voicemail'',
       ''Conference''],
     synthesis_types =
      [''fm'', ''subtractive'', ''wavetable'', ''granular'', ''physical_modeling'',
       ''additive'', ''sample_based'', ''feedback'', ''noise'', ''hybrid''],
     genres =
      [''Retro'', ''Glitch'', ''Experimental'', ''Lo-Fi'', ''Industrial'', ''Ambient'',
       ''Chiptune'', ''Digital'']\<rparr>"

definition vintage_synths :: domain where
  "vintage_synths = \<lparr>
     range_dom = (101, 200),
     prefixes =
      [''Moog'', ''Buchla'', ''ARP'', ''Oberheim'', ''Prophet'', ''Juno'', ''Jupiter'',
       ''TB-303'', ''TR-808'', ''TR-909'', ''Fairlight'', ''Synclavier'', ''PPG'', ''DX'',
       ''MS-20'', ''Odyssey'', ''Serge'', ''EMS'', ''Korg'', ''Roland'', ''Sequential'',
       ''Ensoniq'', ''Kurzweil'', ''Waldorf'', ''Access'', ''Clavia'', ''Novation'',
       ''Arturia'', ''DSI'', ''Elektron'', ''Teenage'', ''Modal'', ''Mutable'',
       ''Make Noise'', ''Intellijel'', ''Doepfer'', ''Modcan'', ''Analogue'', ''Cwejman'',
       ''Metasonix'', ''Macbeth'', ''Studio Electronics'', ''Vermona'', ''MFB'',
       ''Dreadbox'', ''Erica'', ''Pittsburgh'', ''4ms'', ''Tiptop'', ''WMD'', ''Qu-Bit'',
       ''Noise Engineering'', ''Joranalogue'', ''Instruo'', ''Frap'', ''Verbos'',
       ''Endorphin'', ''Steady State'', ''Rossum'', ''Livestock'', ''ALM'', ''After Later'',
       ''Blue Lantern'', ''Circuit Abbey'', ''Dove'', ''EMW'', ''Future Sound'',
       ''Gezeiten'', ''Happy Nerding'', ''Industrial Music'', ''Joranalogue'', ''Kammerl'',
       ''LPZW'', ''Manhattan'', ''New Systems'', ''Olegtron'', ''Paratek'', ''Qubit'',
       ''RYO'', ''SSF'', ''Tesseract'', ''Ultrasound'', ''Void'', ''WMD'', ''Xaoc'',
       ''York'', ''Zlob'', ''Atomosynth'', ''Behringer'', ''Cre8audio'', ''Error'',
       ''Folktek'', ''G-Storm''],
     synthesis_types =
      [''hybrid'', ''subtractive'', ''fm'', ''wavetable'', ''additive'', ''feedback'',
       ''noise'', ''granular'', ''sample_based'', ''physical_modeling''],
     genres =
      [''Synthwave'', ''Experimental'', ''Drone'', ''Ambient'', ''Techno'', ''Industrial'',
       ''Acid'', ''Progressive'']\<rparr>"

definition natural_phenomena :: domain where
  "natural_phenomena = \<lparr>
     range_dom = (201, 300),
     prefixes =
      [''Thunder'', ''Aurora'', ''Rain'', ''Wind'', ''Hurricane'', ''Blizzard'',
       ''Earthquake'', ''Volcanic'', ''Geothermal'', ''Crystal'', ''Cave'', ''Mineral'',
       ''Tectonic'', ''Lava'', ''Stalactite'', ''Ocean'', ''Tsunami'', ''Deep Sea'',
       ''Waterfall'', ''Glacier'', ''River'', ''Frozen Lake'', ''Whirlpool'', ''Ice'',
       ''Heartbeat'', ''Breath'', ''Neural'', ''Neuron'', ''Cell'', ''DNA'', ''Bacterial'',
       ''Amino'', ''Mitochondria'', ''Protein'', ''Organ'', ''Bone'', ''Forest'',
       ''Desert'', ''Swamp'', ''Rainforest'', ''Grassland'', ''Reef'', ''Fungal'',
       ''Coral'', ''Ant Colony'', ''Wolf Pack'', ''Pulsar'', ''Solar Wind'', ''Black Hole'',
       ''Supernova'', ''Quasar'', ''Neutron'', ''Cosmic'', ''Magnetar'', ''Zodiacal'',
       ''Chemical'', ''Catalyst'', ''Exothermic'', ''Crystal'', ''Oxidation'',
       ''Fermentation'', ''Polymer'', ''Photosynthesis'', ''Combustion'', ''Radioactive'',
       ''Entropy'', ''Wave'', ''Harmonic'', ''Frequency'', ''Phase'', ''Doppler'',
       ''Acoustic'', ''Overtone'', ''Spring'', ''Summer'', ''Autumn'', ''Winter'', ''Thaw'',
       ''Monsoon'', ''Dry Season'', ''Permafrost'', ''Tidal'', ''Spring Tide'',
       ''Neap Tide'', ''Rip Current'', ''Undertow'', ''Ebb Flow'', ''Coastline'',
       ''River Meander'', ''Sediment'', ''Canyon'', ''Dune'', ''Landslide'', ''Weathering'',
       ''Fractal'', ''Spiral'', ''Fibonacci'', ''Sunflower''],
     synthesis_types =
      [''fm'', ''subtractive'', ''wavetable'', ''granular'', ''physical_modeling'',
       ''additive'', ''feedback'', ''noise'', ''hybrid'', ''sample_based''],
     genres =
      [''Ambient'', ''Dark Ambient'', ''Experimental'', ''Drone'', ''Cinematic'',
       ''Meditative'', ''Natural'', ''Ethereal'']\<rparr>"

definition industrial :: domain where
  "industrial = \<lparr>
     range_dom = (301, 400),
     prefixes =
      [''Gear'', ''Piston'', ''Turbine'', ''Conveyor'', ''Welding'', ''Pneumatic'',
       ''Steam'', ''Furnace'', ''Jackhammer'', ''Transformer'', ''Relay'', ''Valve'',
       ''Grinding'', ''Chain'', ''Hydraulic'', ''Drill'', ''Stamping'', ''Factory'',
       ''Demolition'', ''Engine'', ''Motor'', ''Compressor'', ''Electromagnetic'',
       ''Siren'', ''Saw Blade'', ''Forging'', ''Magnetic'', ''Electrical'', ''Air Brake'',
       ''Compression'', ''Pulse'', ''Speed Ramp'', ''Clock'', ''Rotor'', ''Spindle'',
       ''Lathe'', ''Press'', ''Roller'', ''Conveyor'', ''Hoist'', ''Crane'', ''Winch'',
       ''Pulley'', ''Lever'', ''Cam'', ''Crank'', ''Flywheel'', ''Governor'', ''Clutch'',
       ''Brake'', ''Bearing'', ''Bushing'', ''Gasket'', ''Seal'', ''Pump'', ''Fan'',
       ''Blower'', ''Compressor'', ''Turbine'', ''Generator'', ''Alternator'', ''Dynamo'',
       ''Motor'', ''Engine'', ''Boiler'', ''Condenser'', ''Heat Exchanger'', ''Radiator'',
       ''Cooler'', ''Heater'', ''Furnace'', ''Kiln'', ''Oven'', ''Dryer'', ''Mixer'',
       ''Agitator'', ''Centrifuge'', ''Filter'', ''Separator'', ''Crusher'', ''Grinder'',
       ''Mill'', ''Shredder'', ''Chipper'', ''Cutter'', ''Slicer'', ''Chopper'', ''Press'',
       ''Extruder'', ''Molder'', ''Former'', ''Welder'', ''Solder'', ''Riveter'',
       ''Bolter'', ''Screwer'', ''Assembler'', ''Tester'', ''Inspector''],
     synthesis_types =
      [''fm'', ''subtractive'', ''wavetable'', ''granular'', ''physical_modeling'',
       ''additive'', ''noise'', ''feedback'', ''hybrid'', ''sample_based''],
     genres =
      [''Industrial'', ''Mechanical'', ''Dark'', ''Rhythmic'', ''Percussion'', ''Texture'',
       ''Aggressive'', ''Ambient'']\<rparr>"

definition scientific :: domain where
  "scientific = \<lparr>
     range_dom = (401, 500),
     prefixes =
      [''Superposition'', ''Entanglement'', ''Heisenberg'',
       (''Schr'' @ [CHR 0xF6] @ ''dinger''), ''Quantum'', ''Planck'', ''Wave Function'',
       ''Photon'', ''Antiparticle'', ''Qubit'', ''Strange Attractor'', ''Butterfly'',
       ''Logistic'', ''Lorenz'', ''Mandelbrot'', ''Bifurcation'', ''Chaos'', ''Sensitive'',
       ''Strange Loop'', ''Attractor'', ''Fractal'', ''Julia'', ''Sierpinski'', ''Koch'',
       ''Apollonian'', ''Droste'', ''Barnsley'', ''Menger'',
       (''M'' @ [CHR 0xF6] @ ''bius''), ''Klein'', ''Toroidal'', ''Genus'', ''Knot'',
       ''Handle'', ''Topological'', ''Surface'', ''Prime'', ''Sieve'', ''RSA'', ''Fermat'',
       ''Goldbach'', ''Mersenne'', ''Twin Prime'', ''Riemann'', ''Modular'', ''Fibonacci'',
       ''Golden Ratio'', ''Spiral'', ''Phyllotaxis'', ''Nautilus'', ''Entropy'',
       ''Thermal'', ''Second Law'', ''Heat Death'', ''Boltzmann'', ''Temperature'',
       ''Phase Transition'', ''Equilibrium'', ''Reversibility'', ''Black Body'',
       ''Doppler'', ''Time Dilation'', ''Spacetime'', ''Gravitational'', ''Light Cone'',
       ''Frame Dragging'', ''Relativistic'', ''Singularity'', ''String'', ''Superstring'',
       ''Higgs'', ''Gauge'', ''Quark'', ''Gluon'', ''Lepton'', ''Muon'', ''Neutrino'',
       ''Hadron'', ''Double Slit'', ''Interference'', ''Standing Wave'', ''Node'',
       ''Beat Frequency'', ''Phase Coherence'', ''Diffraction'', ''Resonance'',
       ''Harmonic'', ''Overtone'', ''Formant'', ''Coupled''],
     synthesis_types =
      [''fm'', ''wavetable'', ''additive'', ''granular'', ''subtractive'', ''feedback'',
       ''hybrid'', ''noise'', ''physical_modeling'', ''sample_based''],
     genres =
      [''Experimental'', ''Ambient'', ''Abstract'', ''Mathematical'', ''Psychoacoustic'',
       ''Electronic'', ''Drone'', ''Generative'']\<rparr>"

definition world_instruments :: domain where
  "world_instruments = \<lparr>
     range_dom = (501, 600),
     prefixes =
      [''Gamelan'', ''Sitar'', ''Tabla'', ''Didgeridoo'', ''Kalimba'', ''Mbira'', ''Koto'',
       ''Shamisen'', ''Erhu'', ''Pipa'', ''Oud'', ''Santoor'', ''Balalaika'', ''Bouzouki'',
       ''Hurdy Gurdy'', ''Bagpipe'', ''Accordion'', ''Harmonium'', ''Throat Singing'',
       ''Overtone'', ''Bell'', ''Gong'', ''Singing Bowl'', ''Wind Chimes'', ''Music Box'',
       ''Carillon'', ''Glass Harmonica'', ''Waterphone'', ''Hang Drum'', ''Jaw Harp'',
       ''Bullroarer'', ''Daegeum'', ''Hulusi'', ''Bowed Psaltery'', ''Steelpan'', ''Tar'',
       ''Qin'', ''Saz'', ''Ney'', ''Nai'', ''Berimbau'', ''Riq'', ''Doumbek'', ''Ud'',
       (''Kemen'' @ [CHR 0xE7] @ ''e''), ''Suling'', ''Bamboo'', ''Rebab'', ''Cimbalom'',
       ''Zither'', ''Dulcimer'', ''Autoharp'', ''Lyre'', ''Harp'', ''Kantele'', ''Bandura'',
       ''Gusli'', ''Kokle'', ''Jouhikko'', ''Talharpa'', ''Langspil'', ''Hardingfele'',
       ''Nyckelharpa'', (''S'' @ [CHR 0xE4] @ ''ckpipa''),
       (''Seljefl'' @ [CHR 0xF8] @ ''yte''), ''Bukkehorn'', ''Lur'', ''Birch Trumpet'',
       ''Willow Flute'', ''Jew's Harp'', ''Langspil'', ''Fidla'',
       ([CHR 0xDE] @ ''j'' @ [CHR 0xF3] @ [CHR 0xF0] @ ''h'' @ [CHR 0xE1] @ ''t'' @ [CHR 0xED] @ [CHR 0xF0]),
       ''Bumbulum'', (''Cu'' @ [CHR 0xED] @ ''ca''), ''Pandeiro'', ''Surdo'', ''Repique'',
       ''Tamborim'', (''Agog'' @ [CHR 0xF4]), (''Ganz'' @ [CHR 0xE1]), ''Reco-Reco'',
       ''Chocalho'', (''Xequer'' @ [CHR 0xEA]), ''Caxixi'', (''Afox'' @ [CHR 0xE9]),
       ''Atabaque'', ''Alfaia'', ''Zabumba'', (''Tri'' @ [CHR 0xE2] @ ''ngulo''),
       ''Maracatu'', ''Berimbau'', ''Conga'', ''Bongo'', ''Timbales'',
       (''G'' @ [CHR 0xFC] @ ''iro''), ''Maracas'', ''Claves''],
     synthesis_types =
      [''fm'', ''additive'', ''physical_modeling'', ''granular'', ''wavetable'',
       ''sample_based'', ''hybrid'', ''subtractive'', ''feedback'', ''noise''],
     genres =
      [''World'', ''Ethnic'', ''Meditative'', ''Percussive'', ''Traditional'',
       ''Experimental'', ''Ambient'', ''Expressive'']\<rparr>"

definition space_cosmic :: domain where
  "space_cosmic = \<lparr>
     range_dom = (601, 700),
     prefixes =
      [''Pulsar'', ''Magnetar'', ''Neutron'', ''Quasar'', ''Black Hole'', ''Event Horizon'',
       ''Accretion'', ''Relativistic'', ''Hawking'', ''Supernova'', ''Stellar'', ''Cosmic'',
       ''Solar Wind'', ''Nebula'', ''Dust Cloud'', ''Emission'', ''Reflection'',
       ''Planetary'', ''Pillars'', ''Dark Nebula'', ''Solar Flare'', ''Coronal'',
       ''Prominence'', ''Heliosphere'', ''Photosphere'', ''Magnetosphere'', ''Ionosphere'',
       ''Radiation Belt'', ''Solar Cycle'', ''Aurora'', ''Green Glow'', ''Van Allen'',
       ''Proton Event'', ''Ray Shower'', ''Cherenkov'', ''Bremsstrahlung'', ''Cascade'',
       ''Muon Decay'', ''Saturn Rings'', ''Cassini'', ''Shepherd'', ''Ice Particle'',
       ''Dust Ring'', ''Ring Resonance'', ''Orbital'', ''Asteroid'', ''Meteor'',
       ''Meteorite'', ''Ablation'', ''Atmospheric'', ''Comet'', ''Nucleus'', ''Tail'',
       ''Sublimation'', ''Coma'', ''Radio Pulsar'', ''Radio Quiet'', ''Pulsar Wind'',
       ''Fast Radio'', ''Repeating FRB'', ''Dispersion'', ''Pulse Profile'',
       ''Radio Morphology'', ''Synchrotron'', ''Betatron'', ''Cyclotron'', ''Plasma'',
       ''Birkeland'', ''Alfven'', ''Radio Telescope'', ''Antenna'', ''Signal'',
       ''Noise Floor'', ''Interference'', ''Microwave Background'', ''Temperature'',
       ''Acoustic Peaks'', ''Gravitational Wave'', ''Merger'', ''LIGO'', ''Ringdown'',
       ''Binary'', ''Dark Matter'', ''Halo'', ''WIMP'', ''Axion'', ''Spaghettification'',
       ''Photon Sphere'', ''Naked Singularity'', ''White Hole'', ''Wormhole'', ''Kerr'',
       ''Reissner'', ''Tensor'', ''Metric'', ''Christoffel'', ''Ricci'', ''Einstein''],
     synthesis_types =
      [''fm'', ''wavetable'', ''additive'', ''granular'', ''subtractive'', ''noise'',
       ''feedback'', ''hybrid'', ''sample_based'', ''physical_modeling''],
     genres =
      [''Sci-Fi'', ''Ambient'', ''Dark'', ''Cinematic'', ''Experimental'', ''Ethereal'',
       ''Drone'', ''Generative'']\<rparr>"

definition biological :: domain where
  "biological = \<lparr>
     range_dom = (701, 800),
     prefixes =
      [''Helix'', ''Ribosome'', ''Mitochondria'', ''Synapse'', ''Heartbeat'', ''Breathing'',
       ''Digestion'', ''Blood'', ''Muscle'', ''Bone'', ''Skin'', ''Hair'', ''Root'',
       ''Photon'', ''Mycelium'', ''Spore'', ''Bacterial'', ''Viral'', ''Parasite'',
       ''Symbiosis'', ''Metamorphosis'', ''Cocoon'', ''Egg'', ''Birth'', ''Decay'',
       ''Decomposition'', ''Fossil'', ''Evolution'', ''Mutation'', ''Adaptation'', ''Axon'',
       ''Dendrite'', ''Ganglion'', ''Glial'', ''Vesicle'', ''Receptor'',
       ''Neurotransmitter'', ''Soma'', ''Neuropeptide'', ''Potassium'', ''Calcium'',
       ''GABA'', ''Glutamate'', ''Dopamine'', ''Serotonin'', ''Cortisol'', ''Adrenaline'',
       ''Melatonin'', ''Endorphin'', ''Oxytocin'', ''Insulin'', ''Cortex'', ''Cerebellum'',
       ''Hippocampus'', ''Amygdala'', ''Thalamus'', ''Pineal'', ''Pituitary'',
       ''Hypothalamus'', ''Cerebral'', ''Nerve'', ''Glial Scar'', ''White Matter'',
       ''Gray Matter'', ''Synaptogenesis'', ''Myelin'', ''Membrane'', ''Vesicular'',
       ''Retrograde'', ''Presynaptic'', ''Postsynaptic'', ''Heterosynaptic'',
       ''Homosynaptic'', ''Neuromuscular'', ''Motor Neuron'', ''Proprioception'',
       ''Cutaneous'', ''Nociception'', ''Thermoreception'', ''Chemoreception'',
       ''Photoreception'', ''Equilibrium'', ''Temporal Bone'', ''Cochlear'', ''Hair Cell'',
       ''Vestibular'', ''Organ of Corti'', ''Endolymph'', ''Perilymph'', ''Stapes'',
       ''Ossicle'', ''Ear Canal'', ''Tympanum'', ''Auditory Cortex''],
     synthesis_types =
      [''fm'', ''feedback'', ''granular'', ''wavetable'', ''additive'', ''subtractive'',
       ''hybrid'', ''noise'', ''sample_based'', ''physical_modeling''],
     genres =
      [''Experimental'', ''Ambient'', ''Organic'', ''Meditative'', ''Dark'', ''Electronic'',
       ''Psychoacoustic'', ''Generative'']\<rparr>"

definition experimental :: domain where
  "experimental = \<lparr>
     range_dom = (801, 900),
     prefixes =
      [''Escher'', ''Paradox'', ''Hypnagogic'', ''Hallucination'', ''Synesthetic'',
       ''Temporal'', ''Parallel'', ''Glitch Reality'', ''Inverted'', ''Recursive'',
       ''Impossible'', ''Ego Death'', ''Consciousness'', ''Rebirth'', ''Memory Decay'',
       ''Uncanny Valley'', ''Liminal'', ''Cosmic Horror'', ''Abstract'', ''Color-Sound'',
       ''Taste-Timbre'', ''Thought'', ''Memetic'', ''Infinite Regression'',
       ''Broken Physics'', ''Quantum Superposition'', ''Time Loop'',
       ''Alternate Dimension'', ''Synapse Misfire'', ''Void'',
       (''M'' @ [CHR 0xF6] @ ''bius''), ''Dream'', ''Perception'', ''Entropy'',
       ''Echo Nowhere'', ''Consciousness Download'', ''Backwards Evolution'',
       ''Probability Cloud'', ''Inverse Mirror'', ''Nested Consciousness'', ''Artifact'',
       ''Reality Seam'', ''Dreamcatcher'', ''Letter Frequencies'', ''Ego Fragment'',
       ''Entropy Crystal'', ''Hyperbolic'', ''Threshold'', ''Memetic Infection'',
       ''Broken Causality'', ''Alternate Timeline'', ''Emotion Mapping'',
       ''Identity Processor'', ''Probability'', ''Void Resonance'', ''Decay Memory'',
       ''Shape Tones'', ''Inverted Envelope'', ''Eternal Moment'', ''Parallel Perception'',
       ''Thought-Space'', ''Glitch Consciousness'', ''Backwards Speech'', ''Membrane'',
       ''Echo Chamber'', ''Kaleidoscope'', ''Void Creature'', ''Consciousness Cascade'',
       ''Scent-Sound'', ''Entropy Reversal'', ''Impossible Interval'', ''Dream Logic'',
       ''Membrane Between'', ''Ego Death Progression'', ''Recursive Dream'',
       ''Motion-Sound'', ''Quantum Foam'', ''Alternate Logic'', ''Conscious Feedback'',
       ''Taste-Color-Sound'', ''Liminal Dream'', ''Thought Crystal'', ''Broken Mirror'',
       ''Parallel Leak'', ''Pain-Sound'', ''Void Echo'', ''Impossible Object'',
       ''Consciousness Threshold'', ''Recursive Nest'', ''Dream-Logic'',
       ''Electromagnetic'', ''Entropy-Driven'', ''Perceptual'', ''Time-Reversed'',
       ''Paradox Resonator'', ''Gravity-Sound'', ''Void Between''],
     synthesis_types =
      [''fm'', ''granular'', ''hybrid'', ''additive'', ''noise'', ''feedback'',
       ''wavetable'', ''subtractive'', ''physical_modeling'', ''sample_based''],
     genres =
      [''Experimental'', ''Ambient'', ''Weird'', ''Psychoacoustic'', ''Glitch'',
       ''Surreal'', ''Abstract'', ''Unsettling'']\<rparr>"

definition generative :: domain where
  "generative = \<lparr>
     range_dom = (901, 1000),
     prefixes =
      [''Conway Life'', ''Wolfram'', ''L-System'', ''Genetic Algorithm'', ''Markov Chain'',
       ''Perlin Noise'', ''Flocking'', ''Ant Colony'', ''Lorenz'', ''Turing Pattern'',
       ''Rossler'', ''Henon'', ''Chua'', ''Ikeda'', ''Tent Map'', ''Baker Map'',
       ''Horseshoe'', ''Arnold'', ''Standard Map'', ''Chirikov'', ''Logistic'',
       ''Mandelbrot'', ''Julia'', ''Newton'', ''Halley'', ''Householder'', ''Secant'',
       ''Bisection'', ''False Position'', ''Fixed Point'', ''Picard'', ''Banach'',
       ''Contraction'', ''Lipschitz'', ''Cauchy'', ''Euler'', ''Runge-Kutta'', ''Adams'',
       ''Milne'', ''Hamming'', ''Predictor'', ''Corrector'', ''Multistep'',
       ''Linear Multistep'', ''Backward Difference'', ''Gear'', ''BDF'', ''Trapezoidal'',
       ''Midpoint'', ''Heun'', ''RK2'', ''RK4'', ''RKF45'', ''Dormand'', ''Prince'',
       ''Cash-Karp'', ''Bogacki'', ''Shampine'', ''Fehlberg'', ''Verner'', ''Butcher'',
       ''Singly Diagonal'', ''Embedded'', ''Adaptive'', ''Variable Step'', ''Dense Output'',
       ''Continuous'', ''Interpolating'', ''Collocation'', ''Galerkin'', ''Petrov'',
       ''Spectral'', ''Finite Element'', ''Boundary Element'', ''Finite Volume'',
       ''Finite Difference'', ''Pseudospectral'', ''Chebyshev'', ''Legendre'', ''Hermite'',
       ''Laguerre'', ''Jacobi'', ''Gegenbauer'', ''Ultraspherical'',
       ''Associated Legendre'', ''Spherical Harmonic'', ''Zernike'', ''Bessel'', ''Hankel'',
       ''Neumann'', ''Struve'', ''Airy'', ''Scorer'', ''Kelvin'', ''Lommel'', ''Anger'',
       ''Weber''],
     synthesis_types =
      [''hybrid'', ''wavetable'', ''additive'', ''granular'', ''feedback'', ''noise'',
       ''fm'', ''subtractive'', ''sample_based'', ''physical_modeling''],
     genres =
      [''Generative'', ''Ambient'', ''Experimental'', ''Glitch'', ''Algorithmic'',
       ''Chaotic'', ''Self-Organizing'', ''Emergent'']\<rparr>"

definition domains :: "(string \<times> domain) list" where
  "domains =
     [(''computer_history'', computer_history),
      (''vintage_synths'', vintage_synths),
      (''natural_phenomena'', natural_phenomena),
      (''industrial'', industrial),
      (''scientific'', scientific),
      (''world_instruments'', world_instruments),
      (''space_cosmic'', space_cosmic),
      (''biological'', biological),
      (''experimental'', experimental),
      (''generative'', generative)]"

definition features :: "string list" where
  "features =
     [''oscillator coupling'', ''harmonic mapping'', ''spectral morphing'',
      ''granular density'', ''feedback routing'', ''modulation matrix'',
      ''wavetable scanning'', ''physical resonance'', ''envelope shaping'',
      ''filter topology'', ''chaos modulation'', ''fractal generation'',
      ''pattern sequencing'', ''stochastic triggering'', ''recursive feedback'',
      ''harmonic series'', ''ring modulation'', ''frequency shifting'',
      ''phase distortion'', ''wavefolding'', ''sample rate reduction'', ''bit crushing'',
      ''spectral freeze'', ''time stretching'', ''pitch shifting'', ''formant filtering'',
      ''comb filtering'', ''allpass diffusion'', ''convolution'', ''granular freeze'',
      ''spectral blur'', ''harmonic excitation'']"

section \<open>Row assembly\<close>

record row =
  row_id :: int
  name :: string
  description :: string
  synthesis_type :: string
  key_feature :: string
  genre_tags :: string
  weirdness_level :: int

text \<open>The ten f-strings of \<^verbatim>\<open>generate_description\<close>, in order.\<close>

definition templates :: "string \<Rightarrow> string list" where
  "templates prefix =
     [prefix @ ''-inspired synthesis with unique timbral characteristics'',
      ''Models '' @ lower prefix @ '' behavior using advanced DSP techniques'',
      prefix @ '' patterns drive oscillator and modulation parameters'',
      ''Physical modeling of '' @ lower prefix @ '' acoustic properties'',
      ''Granular processing inspired by '' @ lower prefix @ '' textures'',
      ''FM synthesis capturing '' @ lower prefix @ '' harmonic relationships'',
      ''Wavetable morphing based on '' @ lower prefix @ '' waveforms'',
      ''Additive synthesis recreating '' @ lower prefix @ '' spectra'',
      ''Feedback network simulating '' @ lower prefix @ '' dynamics'',
      ''Hybrid synthesis combining multiple '' @ lower prefix @ '' characteristics'']"

definition generate_description :: "string \<Rightarrow> string \<Rightarrow> rng \<Rightarrow> error + (string \<times> rng)" where
  "generate_description prefix domain_name g = choice (templates prefix) g"

text \<open>The role word of line 108: \<^verbatim>\<open>'Synth' if random.random() > 0.5 else
  random.choice([...])\<close>. The float \<open>k / 2 ^ 53\<close> exceeds \<open>0.5\<close> exactly when
  \<open>2 ^ 52 < k\<close>.\<close>

definition role_words :: "string list" where
  "role_words = [''Engine'', ''Generator'', ''Oscillator'', ''Filter'', ''Processor'',
                 ''Modulator'', ''Resonator'', ''Sequencer'']"

definition role_word :: "rng \<Rightarrow> error + (string \<times> rng)" where
  "role_word g =
     (case random_random g of (k, g') \<Rightarrow>
        if 2 ^ 52 < k then Inr (''Synth'', g') else choice role_words g')"

definition weirdness :: "string \<Rightarrow> rng \<Rightarrow> error + (int \<times> rng)" where
  "weirdness domain_name g =
     (if \<not> str_contains ''experimental'' domain_name then randint 2 9 g else randint 6 10 g)"

text \<open>The body of the inner loop (lines 107 to 113), for position \<open>i\<close> and id \<open>idx\<close>.\<close>

definition make_row :: "string \<Rightarrow> domain \<Rightarrow> nat \<Rightarrow> int \<Rightarrow> rng \<Rightarrow> error + (row \<times> rng)" where
  "make_row domain_name d i idx g =
     (case index_mod (prefixes d) i of Inl e \<Rightarrow> Inl e | Inr prefix \<Rightarrow>
     (case role_word g of Inl e \<Rightarrow> Inl e | Inr (role, g1) \<Rightarrow>
     (case generate_description prefix domain_name g1 of Inl e \<Rightarrow> Inl e | Inr (desc, g2) \<Rightarrow>
     (case index_mod (synthesis_types d) i of Inl e \<Rightarrow> Inl e | Inr synth_type \<Rightarrow>
     (case choice features g2 of Inl e \<Rightarrow> Inl e | Inr (feature, g3) \<Rightarrow>
     (case sample (genres d) (min 3 (length (genres d))) g3 of Inl e \<Rightarrow> Inl e
      | Inr (genre, g4) \<Rightarrow>
     (case weirdness domain_name g4 of Inl e \<Rightarrow> Inl e | Inr (w, g5) \<Rightarrow>
        Inr (\<lparr>row_id = idx, name = prefix @ '' '' @ role, description = desc,
              synthesis_type = synth_type, key_feature = feature,
              genre_tags = join '';'' genre, weirdness_level = w\<rparr>, g5))))))))"

text \<open>\<^verbatim>\<open>enumerate(range(start, end + 1))\<close>: the pairs of a zero-based position and an id.\<close>

definition enumerate_range :: "int \<Rightarrow> int \<Rightarrow> (nat \<times> int) list" where
  "enumerate_range start end = map (\<lambda>i. (i, start + int i)) [0..<nat (end + 1 - start)]"

fun domain_loop :: "string \<Rightarrow> domain \<Rightarrow> (nat \<times> int) list \<Rightarrow> rng \<Rightarrow> error + (row list \<times> rng)" where
  "domain_loop domain_name d [] g = Inr ([], g)"
| "domain_loop domain_name d ((i, idx) # rest) g =
     (case make_row domain_name d i idx g of Inl e \<Rightarrow> Inl e | Inr (r, g') \<Rightarrow>
     (case domain_loop domain_name d rest g' of Inl e \<Rightarrow> Inl e | Inr (rs, g'') \<Rightarrow>
        Inr (r # rs, g'')))"

text \<open>The outer loop over \<^verbatim>\<open>domains.items()\<close>, a dict iterated in insertion order.\<close>

fun domains_loop :: "(string \<times> domain) list \<Rightarrow> rng \<Rightarrow> error + (row list \<times> rng)" where
  "domains_loop [] g = Inr ([], g)"
| "domains_loop ((domain_name, d) # rest) g =
     (case domain_loop domain_name d
             (enumerate_range (fst (range_dom d)) (snd (range_dom d))) g of
        Inl e \<Rightarrow> Inl e
      | Inr (rs, g') \<Rightarrow>
          (case domains_loop rest g' of Inl e \<Rightarrow> Inl e | Inr (rs', g'') \<Rightarrow>
             Inr (rs @ rs', g'')))"

definition generate_rows :: "rng \<Rightarrow> error + (row list \<times> rng)" where
  "generate_rows g = domains_loop domains g"

section \<open>Writing the table\<close>

text \<open>
  \<^verbatim>\<open>csv.writer(f)\<close> with the default dialect: delimiter comma, quote character \<open>"\<close>,
  minimal quoting, doubled quotes, line terminator CR LF. A field is quoted when it holds
  the delimiter, the quote character or a character of the line terminator; a row whose
  only field is empty is written as a pair of quotes. The file is opened with
  \<^verbatim>\<open>newline=''\<close>, so the terminator is written as it is.
\<close>

definition csv_special :: "char \<Rightarrow> bool" where
  "csv_special c = (c = CHR '','' \<or> c = CHR 0x22 \<or> c = CHR 0x0D \<or> c = CHR 0x0A)"

definition csv_field :: "string \<Rightarrow> string" where
  "csv_field s =
     (if list_ex csv_special s
      then [CHR 0x22] @ concat (map (\<lambda>c. if c = CHR 0x22 then [c, c] else [c]) s) @ [CHR 0x22]
      else s)"

definition writerow :: "string list \<Rightarrow> string" where
  "writerow flds =
     (if flds = [[]] then [CHR 0x22, CHR 0x22] else join '','' (map csv_field flds))
     @ [CHR 0x0D, CHR 0x0A]"

definition header :: "string list" where
  "header = [''id'', ''name'', ''description'', ''synthesis_type'', ''key_feature'',
             ''genre_tags'', ''weirdness_level'']"

definition row_fields :: "row \<Rightarrow> string list" where
  "row_fields r =
     [str_int (row_id r), name r, description r, synthesis_type r, key_feature r,
      genre_tags r, str_int (weirdness_level r)]"

text \<open>The text of the output file after a run that starts with the random source \<open>g\<close>.\<close>

definition generate :: "rng \<Rightarrow> error + (string \<times> rng)" where
  "generate g =
     (case generate_rows g of Inl e \<Rightarrow> Inl e
      | Inr (rows, g') \<Rightarrow>
          Inr (writerow header @ concat (map (\<lambda>r. writerow (row_fields r)) rows), g'))"


section \<open>Specification vocabulary\<close>

text \<open>
  \<open>positions ds\<close> lists, in the order the two loops visit them, every combination of a
  domain name, its table, a zero-based position \<open>i\<close> and the id \<open>idx\<close> at that position:
  the arguments of the successive calls of the loop body. \<open>made p r\<close> says that \<open>r\<close> is a
  row the loop body can return at position \<open>p\<close>, for some state of the random source.
\<close>

definition positions :: "(string \<times> domain) list \<Rightarrow> (string \<times> domain \<times> nat \<times> int) list" where
  "positions ds =
     concat (map (\<lambda>(domain_name, d).
                    map (\<lambda>p. (domain_name, d, p))
                        (enumerate_range (fst (range_dom d)) (snd (range_dom d)))) ds)"

definition made :: "string \<times> domain \<times> nat \<times> int \<Rightarrow> row \<Rightarrow> bool" where
  "made p r = (case p of (domain_name, d, i, idx) \<Rightarrow>
                 \<exists>h h'. make_row domain_name d i idx h = Inr (r, h'))"

text \<open>The ten technique tags the specification names as the shared vocabulary.\<close>

definition synthesis_vocabulary :: "string list" where
  "synthesis_vocabulary = [''fm'', ''subtractive'', ''wavetable'', ''granular'',
     ''physical_modeling'', ''additive'', ''sample_based'', ''feedback'', ''noise'', ''hybrid'']"

text \<open>The facts about one domain's literal lists that the proofs below rely on; each is
  checked by evaluation on the ten tables.\<close>

definition table_ok :: "domain \<Rightarrow> bool" where
  "table_ok d =
     (prefixes d \<noteq> [] \<and> synthesis_types d \<noteq> [] \<and>
      set (synthesis_types d) \<subseteq> set synthesis_vocabulary \<and>
      length (genres d) = 8 \<and> distinct (genres d) \<and>
      list_all (\<lambda>s. CHR '';'' \<notin> set s) (genres d))"

text \<open>
  The specification describes the description as one of ten fixed sentence templates with
  a hole for the prefix, taken as it is or lower-cased. \<open>template_shapes\<close> writes each
  template as the text before the hole, whether the prefix is lower-cased, and the text
  after the hole; it is compared below with \<open>templates\<close>, which follows the source.
\<close>

definition template_shapes :: "(string \<times> bool \<times> string) list" where
  "template_shapes =
     [('''', False, ''-inspired synthesis with unique timbral characteristics''),
      (''Models '', True, '' behavior using advanced DSP techniques''),
      ('''', False, '' patterns drive oscillator and modulation parameters''),
      (''Physical modeling of '', True, '' acoustic properties''),
      (''Granular processing inspired by '', True, '' textures''),
      (''FM synthesis capturing '', True, '' harmonic relationships''),
      (''Wavetable morphing based on '', True, '' waveforms''),
      (''Additive synthesis recreating '', True, '' spectra''),
      (''Feedback network simulating '', True, '' dynamics''),
      (''Hybrid synthesis combining multiple '', True, '' characteristics'')]"

definition fill :: "string \<Rightarrow> string \<times> bool \<times> string \<Rightarrow> string" where
  "fill prefix shape =
     (case shape of (before, lowered, after) \<Rightarrow>
        before @ (if lowered then lower prefix else prefix) @ after)"

text \<open>\<open>plain s\<close>: no character of \<open>s\<close> makes \<^verbatim>\<open>csv.writer\<close> quote the field.
  \<open>table_plain d\<close>: every string of the domain's three lists is plain.\<close>

definition plain :: "string \<Rightarrow> bool" where
  "plain s = list_all (\<lambda>c. \<not> csv_special c) s"

definition table_plain :: "domain \<Rightarrow> bool" where
  "table_plain d =
     (list_all plain (prefixes d) \<and> list_all plain (synthesis_types d) \<and>
      list_all plain (genres d))"

text \<open>
  The draws of a run. \<open>drop_draws k g\<close> is the random source after \<open>k\<close> draws.
  \<open>role_draws g\<close> is the number of draws the role word of line 108 takes from \<open>g\<close>:
  one for \<^verbatim>\<open>random.random()\<close>, and one more for \<^verbatim>\<open>random.choice\<close> when the float is not
  above 0.5. On the embedded tables a row takes these, one draw for the description, one
  for the key feature, three for the genre sample and one for the weirdness level;
  \<open>row_start g k\<close> is the number of draws taken before the row of zero-based number
  \<open>k\<close>, and \<open>at_row g (k, p) r\<close> says that the loop body, called at position \<open>p\<close> with
  the source as it stands before row \<open>k\<close>, returns \<open>r\<close> and leaves the source as it
  stands before row \<open>k + 1\<close>.
\<close>

definition drop_draws :: "nat \<Rightarrow> rng \<Rightarrow> rng" where
  "drop_draws k g = (\<lambda>i. g (k + i))"

definition role_draws :: "rng \<Rightarrow> nat" where
  "role_draws g = (if 2 ^ 52 < g 0 mod 2 ^ 53 then 1 else 2)"

fun row_start :: "rng \<Rightarrow> nat \<Rightarrow> nat" where
  "row_start g 0 = 0"
| "row_start g (Suc k) = row_start g k + role_draws (drop_draws (row_start g k) g) + 6"

definition at_row :: "rng \<Rightarrow> nat \<times> string \<times> domain \<times> nat \<times> int \<Rightarrow> row \<Rightarrow> bool" where
  "at_row g kp r =
     (case kp of (k, domain_name, d, i, idx) \<Rightarrow>
        make_row domain_name d i idx (drop_draws (row_start g k) g)
          = Inr (r, drop_draws (row_start g (Suc k)) g))"

text \<open>
  Reading the file back. \<open>split_crlf s\<close> is the list of the pieces of \<open>s\<close> between its CR LF pairs, the lines of a
  text whose line terminator is CR LF, and \<open>nat_of_str\<close> reads a decimal numeral.
\<close>

fun split_crlf :: "string \<Rightarrow> string list" where
  "split_crlf [] = [[]]"
| "split_crlf [c] = [[c]]"
| "split_crlf (c # d # cs) =
     (if c = CHR 0x0D \<and> d = CHR 0x0A then [] # split_crlf cs
      else (case split_crlf (d # cs) of
              [] \<Rightarrow> [[c]]
            | w # ws \<Rightarrow> (c # w) # ws))"

definition nat_of_str :: "string \<Rightarrow> nat" where
  "nat_of_str s = foldl (\<lambda>a c. 10 * a + (of_char c - 48)) 0 s"


section \<open>Properties of the primitives\<close>

lemma randbelow_less: "0 < n \<Longrightarrow> fst (randbelow n g) < n"
  by (simp add: randbelow_def draw_def)

lemma pool_step:
  assumes j: "j < m" and m: "m \<le> length pool" and d: "distinct (take m pool)"
  shows "distinct (take (m - 1) (pool[j := pool ! (m - 1)])) \<and>
         set (take (m - 1) (pool[j := pool ! (m - 1)])) = set (take m pool) - {pool ! j}"
proof -
  define ys where "ys = take (m - 1) pool"
  define v where "v = pool ! (m - 1)"
  have mpos: "0 < m" using j by simp
  have split: "take m pool = ys @ [v]"
    using take_Suc_conv_app_nth [of "m - 1" pool] mpos m by (simp add: ys_def v_def)
  have dys: "distinct ys" and vys: "v \<notin> set ys"
    using d by (simp_all add: split)
  have len: "length ys = m - 1" using m by (simp add: ys_def)
  have upd: "take (m - 1) (pool[j := v]) = ys[j := v]"
    by (simp add: ys_def take_update_swap)
  have main: "distinct (ys[j := v]) \<and> set (ys[j := v]) = set (ys @ [v]) - {pool ! j}"
  proof (cases "j = m - 1")
    case True
    then have "ys[j := v] = ys" by (simp add: list_update_beyond len)
    moreover have "pool ! j = v" using True by (simp add: v_def)
    ultimately show ?thesis using dys vys by simp
  next
    case False
    then have jl: "j < length ys" using j len by simp
    have pj: "pool ! j = ys ! j" using jl by (simp add: ys_def)
    have "distinct (ys[j := v])"
      using dys vys by (simp add: distinct_list_update)
    moreover have "set (ys[j := v]) = insert v (set ys - {ys ! j})"
      using dys jl by (rule set_update_distinct)
    moreover have "v \<noteq> ys ! j" using vys jl by (metis nth_mem)
    ultimately show ?thesis by (auto simp: pj)
  qed
  then have "distinct (take (m - 1) (pool[j := v])) \<and>
             set (take (m - 1) (pool[j := v])) = set (take m pool) - {pool ! j}"
    by (simp only: upd split)
  then show ?thesis by (simp only: v_def)
qed

lemma sample_pool_props:
  "k \<le> m \<Longrightarrow> m \<le> length pool \<Longrightarrow> distinct (take m pool) \<Longrightarrow>
   length (fst (sample_pool pool m k g)) = k \<and>
   distinct (fst (sample_pool pool m k g)) \<and>
   set (fst (sample_pool pool m k g)) \<subseteq> set (take m pool)"
proof (induction k arbitrary: pool m g)
  case 0
  then show ?case by simp
next
  case (Suc k)
  define j where "j = fst (randbelow m g)"
  define g' where "g' = snd (randbelow m g)"
  define pool' where "pool' = pool[j := pool ! (m - 1)]"
  have mpos: "0 < m" using Suc.prems by simp
  have jm: "j < m" unfolding j_def using mpos by (rule randbelow_less)
  have step: "distinct (take (m - 1) pool') \<and>
              set (take (m - 1) pool') = set (take m pool) - {pool ! j}"
    unfolding pool'_def using jm Suc.prems(2,3) by (rule pool_step)
  have ih: "length (fst (sample_pool pool' (m - 1) k g')) = k \<and>
            distinct (fst (sample_pool pool' (m - 1) k g')) \<and>
            set (fst (sample_pool pool' (m - 1) k g')) \<subseteq> set (take (m - 1) pool')"
    using Suc.prems step by (intro Suc.IH) (simp_all add: pool'_def)
  have unfold: "fst (sample_pool pool m (Suc k) g) =
                pool ! j # fst (sample_pool pool' (m - 1) k g')"
    by (simp add: j_def g'_def pool'_def split: prod.splits)
  have mem: "pool ! j \<in> set (take m pool)"
    using jm Suc.prems(2) by (metis length_take min.absorb2 nth_mem nth_take)
  show ?case unfolding unfold using ih step mem by auto
qed

lemma split_on_single: "sep \<notin> set x \<Longrightarrow> split_on sep x = [x]"
  by (induction x) auto

lemma split_on_append:
  "sep \<notin> set x \<Longrightarrow> split_on sep (x @ sep # rest) = x # split_on sep rest"
  by (induction x) auto

lemma split_on_join:
  "xs \<noteq> [] \<Longrightarrow> \<forall>x\<in>set xs. sep \<notin> set x \<Longrightarrow> split_on sep (join [sep] xs) = xs"
proof (induction "[sep]" xs rule: join.induct)
  case 1
  then show ?case by simp
next
  case (2 x)
  then show ?case by (simp add: split_on_single)
next
  case (3 x y ys)
  then show ?case by (simp add: split_on_append)
qed


section \<open>The loops: what they return, and that they return\<close>

lemma domain_loop_made:
  "domain_loop dn d ps g = Inr (rows, g') \<Longrightarrow>
   list_all2 made (map (\<lambda>p. (dn, d, p)) ps) rows"
proof (induction ps arbitrary: g rows)
  case Nil
  then show ?case by simp
next
  case (Cons p ps)
  obtain i idx where p: "p = (i, idx)" by (cases p)
  from Cons.prems obtain r g1 rs where
    r: "make_row dn d i idx g = Inr (r, g1)" and
    rs: "domain_loop dn d ps g1 = Inr (rs, g')" and
    rows: "rows = r # rs"
    by (auto simp: p split: sum.splits prod.splits)
  have "made (dn, d, i, idx) r" using r by (auto simp: made_def)
  moreover have "list_all2 made (map (\<lambda>p. (dn, d, p)) ps) rs"
    using rs by (rule Cons.IH)
  ultimately show ?case by (simp add: p rows)
qed

lemma domains_loop_made:
  "domains_loop ds g = Inr (rows, g') \<Longrightarrow> list_all2 made (positions ds) rows"
proof (induction ds arbitrary: g rows)
  case Nil
  then show ?case by (simp add: positions_def)
next
  case (Cons a ds)
  obtain dn d where a: "a = (dn, d)" by (cases a)
  from Cons.prems obtain rs g1 rs' where
    rs: "domain_loop dn d (enumerate_range (fst (range_dom d)) (snd (range_dom d))) g
           = Inr (rs, g1)" and
    rs': "domains_loop ds g1 = Inr (rs', g')" and
    rows: "rows = rs @ rs'"
    by (auto simp: a split: sum.splits prod.splits)
  have "list_all2 made (map (\<lambda>p. (dn, d, p))
          (enumerate_range (fst (range_dom d)) (snd (range_dom d)))) rs"
    using rs by (rule domain_loop_made)
  moreover have "list_all2 made (positions ds) rs'"
    using rs' by (rule Cons.IH)
  ultimately show ?case
    by (simp add: a rows positions_def list_all2_appendI)
qed

lemma index_mod_total: "xs \<noteq> [] \<Longrightarrow> index_mod xs i = Inr (xs ! (i mod length xs))"
  by (simp add: index_mod_def)

lemma choice_total:
  "seq \<noteq> [] \<Longrightarrow> choice seq g = Inr (seq ! (g 0 mod length seq), \<lambda>i. g (Suc i))"
  by (simp add: choice_def randbelow_def draw_def)

lemma role_words_length: "length role_words = 8"
  by (simp add: role_words_def)

lemma role_word_total:
  "role_word g =
     (if 2 ^ 52 < g 0 mod 2 ^ 53 then Inr (''Synth'', \<lambda>i. g (Suc i))
      else Inr (role_words ! (g 1 mod 8), \<lambda>i. g (Suc (Suc i))))"
proof -
  have "role_words \<noteq> []" by (simp add: role_words_def)
  then show ?thesis
    by (simp add: role_word_def random_random_def draw_def choice_total role_words_length)
qed

lemma templates_length: "length (templates prefix) = 10"
  by (simp add: templates_def)

lemma generate_description_total:
  "generate_description prefix dn g =
     Inr (templates prefix ! (g 0 mod 10), \<lambda>i. g (Suc i))"
proof -
  have "templates prefix \<noteq> []" by (simp add: templates_def)
  then show ?thesis
    by (simp add: generate_description_def choice_total templates_length)
qed

lemma features_length: "length features = 32"
  by (simp add: features_def)

lemma randint_total:
  "a \<le> b \<Longrightarrow> randint a b g = Inr (a + int (g 0 mod nat (b + 1 - a)), \<lambda>i. g (Suc i))"
  by (simp add: randint_def randbelow_def draw_def Let_def)

lemma weirdness_total:
  "weirdness dn g =
     Inr (if str_contains ''experimental'' dn then 6 + int (g 0 mod 5)
          else 2 + int (g 0 mod 8), \<lambda>i. g (Suc i))"
  by (simp add: weirdness_def randint_total)

lemma sample_total:
  "sample xs (min 3 (length xs)) g = Inr (sample_pool xs (length xs) (min 3 (length xs)) g)"
  by (simp add: sample_def)

lemma make_row_total:
  assumes "prefixes d \<noteq> []" and "synthesis_types d \<noteq> []"
  shows "\<exists>r g'. make_row dn d i idx g = Inr (r, g')"
proof -
  have "features \<noteq> []" by (simp add: features_def)
  then show ?thesis
    using assms
    by (simp add: make_row_def index_mod_total role_word_total generate_description_total
        choice_total sample_total weirdness_total split: prod.splits)
qed

lemma domain_loop_total:
  assumes "prefixes d \<noteq> []" and "synthesis_types d \<noteq> []"
  shows "\<exists>rows g'. domain_loop dn d ps g = Inr (rows, g')"
proof (induction ps arbitrary: g)
  case Nil
  show ?case by simp
next
  case (Cons p ps)
  obtain i idx where p: "p = (i, idx)" by (cases p)
  obtain r g1 where r: "make_row dn d i idx g = Inr (r, g1)"
    using make_row_total [OF assms] by blast
  obtain rs g2 where rs: "domain_loop dn d ps g1 = Inr (rs, g2)"
    using Cons.IH by blast
  show ?case by (simp add: p r rs)
qed

lemma domains_loop_total:
  assumes "list_all (\<lambda>(dn, d). prefixes d \<noteq> [] \<and> synthesis_types d \<noteq> []) ds"
  shows "\<exists>rows g'. domains_loop ds g = Inr (rows, g')"
  using assms
proof (induction ds arbitrary: g)
  case Nil
  show ?case by simp
next
  case (Cons a ds)
  obtain dn d where a: "a = (dn, d)" by (cases a)
  have ok: "prefixes d \<noteq> []" "synthesis_types d \<noteq> []"
    using Cons.prems by (simp_all add: a)
  obtain rs g1 where rs:
    "domain_loop dn d (enumerate_range (fst (range_dom d)) (snd (range_dom d))) g = Inr (rs, g1)"
    using domain_loop_total [OF ok] by blast
  have "list_all (\<lambda>(dn, d). prefixes d \<noteq> [] \<and> synthesis_types d \<noteq> []) ds"
    using Cons.prems by simp
  then obtain rs' g2 where rs': "domains_loop ds g1 = Inr (rs', g2)"
    using Cons.IH by blast
  show ?case by (simp add: a rs rs')
qed


section \<open>Facts of the literal tables\<close>

lemma tables_ok:
  "table_ok computer_history" "table_ok vintage_synths" "table_ok natural_phenomena"
  "table_ok industrial" "table_ok scientific" "table_ok world_instruments"
  "table_ok space_cosmic" "table_ok biological" "table_ok experimental"
  "table_ok generative"
  by (simp_all add: table_ok_def synthesis_vocabulary_def computer_history_def
      vintage_synths_def natural_phenomena_def industrial_def scientific_def
      world_instruments_def space_cosmic_def biological_def experimental_def generative_def)

lemma ranges:
  "range_dom computer_history = (1, 100)" "range_dom vintage_synths = (101, 200)"
  "range_dom natural_phenomena = (201, 300)" "range_dom industrial = (301, 400)"
  "range_dom scientific = (401, 500)" "range_dom world_instruments = (501, 600)"
  "range_dom space_cosmic = (601, 700)" "range_dom biological = (701, 800)"
  "range_dom experimental = (801, 900)" "range_dom generative = (901, 1000)"
  by (simp_all add: computer_history_def
      vintage_synths_def natural_phenomena_def industrial_def scientific_def
      world_instruments_def space_cosmic_def biological_def experimental_def generative_def)

lemma domains_table_ok: "list_all (\<lambda>(dn, d). table_ok d) domains"
  by (simp add: domains_def tables_ok)

lemma domains_nonempty:
  "list_all (\<lambda>(dn, d). prefixes d \<noteq> [] \<and> synthesis_types d \<noteq> []) domains"
  using domains_table_ok by (simp add: domains_def table_ok_def)

lemma positions_mem:
  "(dn, d, i, idx) \<in> set (positions ds) \<Longrightarrow>
   (dn, d) \<in> set ds \<and> idx = fst (range_dom d) + int i \<and>
   int i < snd (range_dom d) + 1 - fst (range_dom d)"
  by (auto simp: positions_def enumerate_range_def)

lemma map_snd_enumerate_range: "map snd (enumerate_range s e) = [s..e]"
proof (rule nth_equalityI)
  show "length (map snd (enumerate_range s e)) = length [s..e]"
    by (simp add: enumerate_range_def)
next
  fix k assume "k < length (map snd (enumerate_range s e))"
  then have k: "k < nat (e + 1 - s)" by (simp add: enumerate_range_def)
  then have "s + int k \<le> e" by arith
  then show "map snd (enumerate_range s e) ! k = [s..e] ! k"
    using k by (simp add: enumerate_range_def)
qed

lemma map_idx_positions:
  "map (\<lambda>(dn, d, i, idx). idx) (positions ds) =
   concat (map (\<lambda>(dn, d). [fst (range_dom d)..snd (range_dom d)]) ds)"
proof (induction ds)
  case Nil
  show ?case by (simp add: positions_def)
next
  case (Cons a ds)
  obtain dn d where a: "a = (dn, d)" by (cases a)
  have "map (\<lambda>(dn, d, i, idx). idx)
          (map (\<lambda>p. (dn, d, p)) (enumerate_range (fst (range_dom d)) (snd (range_dom d))))
        = map snd (enumerate_range (fst (range_dom d)) (snd (range_dom d)))"
    by (simp add: case_prod_beta comp_def)
  then show ?case
    using Cons.IH
    by (simp add: a positions_def map_snd_enumerate_range del: upto_rec_numeral)
qed

lemma ids_split:
  "[1..100] @ [101..200] @ [201..300] @ [301..400] @ [401..500] @ [501..600] @
   [601..700] @ [701..800] @ [801..900] @ [901..1000] = [1..1000]"
  using upto_split2 [of 1 100 1000] upto_split2 [of 101 200 1000]
    upto_split2 [of 201 300 1000] upto_split2 [of 301 400 1000]
    upto_split2 [of 401 500 1000] upto_split2 [of 501 600 1000]
    upto_split2 [of 601 700 1000] upto_split2 [of 701 800 1000]
    upto_split2 [of 801 900 1000]
  by (simp del: upto_rec_numeral)

lemma ids_positions: "map (\<lambda>(dn, d, i, idx). idx) (positions domains) = [1..1000]"
  using ids_split
  by (simp add: map_idx_positions domains_def ranges del: upto_rec_numeral)

lemma owner_experimental:
  "(dn, d) \<in> set domains \<Longrightarrow> fst (range_dom d) \<le> idx \<Longrightarrow> idx \<le> snd (range_dom d) \<Longrightarrow>
   str_contains ''experimental'' dn = (801 \<le> idx \<and> idx \<le> 900)"
  by (auto simp: domains_def ranges)

lemma generate_rows_made:
  "\<exists>rows g'. generate_rows g = Inr (rows, g') \<and> list_all2 made (positions domains) rows"
proof -
  obtain rows g' where r: "domains_loop domains g = Inr (rows, g')"
    using domains_loop_total [OF domains_nonempty] by blast
  then have "list_all2 made (positions domains) rows" by (rule domains_loop_made)
  then show ?thesis using r by (auto simp: generate_rows_def)
qed


section \<open>The rows of a run\<close>

lemma make_row_Inr:
  assumes "make_row dn d i idx g = Inr (r, g')"
  shows "\<exists>prefix role g1 g2 g3 g4.
           index_mod (prefixes d) i = Inr prefix \<and>
           role_word g = Inr (role, g1) \<and>
           generate_description prefix dn g1 = Inr (description r, g2) \<and>
           index_mod (synthesis_types d) i = Inr (synthesis_type r) \<and>
           choice features g2 = Inr (key_feature r, g3) \<and>
           (\<exists>genre. sample (genres d) (min 3 (length (genres d))) g3 = Inr (genre, g4) \<and>
                    genre_tags r = join '';'' genre) \<and>
           weirdness dn g4 = Inr (weirdness_level r, g') \<and>
           row_id r = idx \<and> name r = prefix @ '' '' @ role"
proof -
  from assms obtain prefix where 1: "index_mod (prefixes d) i = Inr prefix"
    by (cases "index_mod (prefixes d) i") (simp_all add: make_row_def)
  from assms obtain role g1 where 2: "role_word g = Inr (role, g1)"
    by (cases "role_word g") (auto simp: make_row_def 1)
  from assms obtain desc g2 where 3: "generate_description prefix dn g1 = Inr (desc, g2)"
    by (cases "generate_description prefix dn g1") (auto simp: make_row_def 1 2)
  from assms obtain synth where 4: "index_mod (synthesis_types d) i = Inr synth"
    by (cases "index_mod (synthesis_types d) i") (simp_all add: make_row_def 1 2 3)
  from assms obtain feature g3 where 5: "choice features g2 = Inr (feature, g3)"
    by (cases "choice features g2") (auto simp: make_row_def 1 2 3 4)
  from assms obtain genre g4 where
    6: "sample (genres d) (min 3 (length (genres d))) g3 = Inr (genre, g4)"
    by (cases "sample (genres d) (min 3 (length (genres d))) g3")
       (auto simp: make_row_def 1 2 3 4 5)
  from assms obtain w g5 where 7: "weirdness dn g4 = Inr (w, g5)"
    by (cases "weirdness dn g4") (auto simp: make_row_def 1 2 3 4 5 6)
  from assms have 8: "g' = g5" and
    9: "r = \<lparr>row_id = idx, name = prefix @ '' '' @ role, description = desc,
                 synthesis_type = synth, key_feature = feature,
                 genre_tags = join '';'' genre, weirdness_level = w\<rparr>"
    by (simp_all add: make_row_def 1 2 3 4 5 6 7)
  have f: "description r = desc" "synthesis_type r = synth" "key_feature r = feature"
    "genre_tags r = join '';'' genre" "weirdness_level r = w" "row_id r = idx"
    "name r = prefix @ '' '' @ role"
    by (simp_all add: 9)
  show ?thesis
    using 1 2 3 4 5 6 7 unfolding 8 f by blast
qed

lemma made_row_id: "made (dn, d, i, idx) r \<Longrightarrow> row_id r = idx"
proof -
  assume "made (dn, d, i, idx) r"
  then obtain h h' where "make_row dn d i idx h = Inr (r, h')"
    by (auto simp: made_def)
  from make_row_Inr [OF this] show ?thesis by (elim exE conjE)
qed

lemma made_ids:
  "list_all2 made ps rows \<Longrightarrow> map row_id rows = map (\<lambda>(dn, d, i, idx). idx) ps"
proof (induction rule: list_all2_induct)
  case Nil
  show ?case by simp
next
  case (Cons p ps r rows)
  obtain dn d i idx where p: "p = (dn, d, i, idx)" by (cases p)
  show ?case using Cons made_row_id [of dn d i idx r] by (simp add: p)
qed


section \<open>The claims\<close>

text \<open>
  Claim C10. Row assembly cannot fail on the embedded tables. For every domain both
  cycled lists are non-empty and the sample size \<open>min 3 (length genres)\<close> is at most
  the length of the genre list; for every visited position the two cycled indices are in
  bounds and the loop body returns a row from every state of the random source; the
  visited ids are 1..1000; and the whole run returns.
\<close>

theorem C10_row_assembly_total:
  "list_all (\<lambda>(domain_name, d).
       prefixes d \<noteq> [] \<and> synthesis_types d \<noteq> [] \<and>
       min 3 (length (genres d)) \<le> length (genres d)) domains \<and>
   list_all (\<lambda>(domain_name, d, i, idx).
       i mod length (prefixes d) < length (prefixes d) \<and>
       i mod length (synthesis_types d) < length (synthesis_types d) \<and>
       (\<forall>h. \<exists>r h'. make_row domain_name d i idx h = Inr (r, h'))) (positions domains) \<and>
   map (\<lambda>(domain_name, d, i, idx). idx) (positions domains) = [1..1000] \<and>
   (\<forall>g. \<exists>rows g'. generate_rows g = Inr (rows, g'))"
proof -
  have a: "list_all (\<lambda>(domain_name, d).
       prefixes d \<noteq> [] \<and> synthesis_types d \<noteq> [] \<and>
       min 3 (length (genres d)) \<le> length (genres d)) domains"
    using domains_nonempty by (simp add: domains_def)
  have b: "list_all (\<lambda>(domain_name, d, i, idx).
       i mod length (prefixes d) < length (prefixes d) \<and>
       i mod length (synthesis_types d) < length (synthesis_types d) \<and>
       (\<forall>h. \<exists>r h'. make_row domain_name d i idx h = Inr (r, h'))) (positions domains)"
    unfolding list_all_iff
  proof
    fix p assume p: "p \<in> set (positions domains)"
    obtain dn d i idx where pe: "p = (dn, d, i, idx)" by (cases p)
    have "(dn, d) \<in> set domains" using p positions_mem by (simp add: pe)
    then have ne: "prefixes d \<noteq> []" "synthesis_types d \<noteq> []"
      using domains_nonempty by (auto simp: list_all_iff)
    then have "\<forall>h. \<exists>r h'. make_row dn d i idx h = Inr (r, h')"
      using make_row_total by blast
    then show "case p of (domain_name, d, i, idx) \<Rightarrow>
       i mod length (prefixes d) < length (prefixes d) \<and>
       i mod length (synthesis_types d) < length (synthesis_types d) \<and>
       (\<forall>h. \<exists>r h'. make_row domain_name d i idx h = Inr (r, h'))"
      using ne by (simp add: pe)
  qed
  have c: "\<forall>g. \<exists>rows g'. generate_rows g = Inr (rows, g')"
    using generate_rows_made by blast
  show ?thesis by (intro conjI a b c ids_positions)
qed

theorem C10_row_assembly_total_witness:
  "prefixes computer_history \<noteq> [] \<and> synthesis_types computer_history \<noteq> [] \<and>
   min 3 (length (genres computer_history)) \<le> length (genres computer_history) \<and>
   (\<exists>rows g'. generate_rows (\<lambda>i. 0) = Inr (rows, g'))"
  using C10_row_assembly_total by (simp add: domains_def)


lemma made_lift:
  assumes "list_all2 made ps rows"
    and "\<And>dn d i idx r. (dn, d, i, idx) \<in> set ps \<Longrightarrow> made (dn, d, i, idx) r \<Longrightarrow> Q (dn, d, i, idx) r"
  shows "list_all2 Q ps rows"
  using assms(1)
proof (rule list.rel_mono_strong)
  fix p r assume p: "p \<in> set ps" and m: "made p r"
  obtain dn d i idx where "p = (dn, d, i, idx)" by (cases p)
  then show "Q p r" using assms(2) p m by simp
qed

lemma made_synthesis_type:
  "made (dn, d, i, idx) r \<Longrightarrow> index_mod (synthesis_types d) i = Inr (synthesis_type r)"
proof -
  assume "made (dn, d, i, idx) r"
  then obtain h h' where "make_row dn d i idx h = Inr (r, h')"
    by (auto simp: made_def)
  from make_row_Inr [OF this] show ?thesis by (elim exE conjE)
qed

lemma vocabulary_facts: "length synthesis_vocabulary = 10 \<and> distinct synthesis_vocabulary"
  by (simp add: synthesis_vocabulary_def)

text \<open>
  Claim C6. In every run, every row's synthesis type is one of the ten words of the
  shared vocabulary, and it is the owning domain's synthesis-type list read at the row's
  zero-based position in the domain, modulo the length of that list. (The row at position
  \<open>i\<close> of a domain has the id \<open>start + i\<close>.)
\<close>

theorem C6_synthesis_type_vocabulary:
  "\<exists>rows g'. generate_rows g = Inr (rows, g') \<and>
     list_all2 (\<lambda>(domain_name, d, i, idx) r.
         row_id r = idx \<and> idx = fst (range_dom d) + int i \<and>
         synthesis_type r \<in> set synthesis_vocabulary \<and>
         index_mod (synthesis_types d) i = Inr (synthesis_type r) \<and>
         synthesis_type r = synthesis_types d ! (i mod length (synthesis_types d)))
       (positions domains) rows \<and>
     length synthesis_vocabulary = 10 \<and> distinct synthesis_vocabulary"
proof -
  obtain rows g' where r: "generate_rows g = Inr (rows, g')"
    and m: "list_all2 made (positions domains) rows"
    using generate_rows_made by blast
  let ?Q = "\<lambda>(domain_name, d, i, idx) r.
         row_id r = idx \<and> idx = fst (range_dom d) + int i \<and>
         synthesis_type r \<in> set synthesis_vocabulary \<and>
         index_mod (synthesis_types d) i = Inr (synthesis_type r) \<and>
         synthesis_type r = synthesis_types d ! (i mod length (synthesis_types d))"
  have "list_all2 ?Q (positions domains) rows"
    using m
  proof (rule made_lift)
    fix dn d i idx r
    assume p: "(dn, d, i, idx) \<in> set (positions domains)" and md: "made (dn, d, i, idx) r"
    have mem: "(dn, d) \<in> set domains" and idx: "idx = fst (range_dom d) + int i"
      using positions_mem [OF p] by simp_all
    have ok: "table_ok d" using mem domains_table_ok by (auto simp: list_all_iff)
    then have ne: "synthesis_types d \<noteq> []" by (simp add: table_ok_def)
    have st: "index_mod (synthesis_types d) i = Inr (synthesis_type r)"
      using md by (rule made_synthesis_type)
    then have eq: "synthesis_type r = synthesis_types d ! (i mod length (synthesis_types d))"
      using ne by (simp add: index_mod_total)
    have "i mod length (synthesis_types d) < length (synthesis_types d)" using ne by simp
    then have "synthesis_type r \<in> set (synthesis_types d)"
      unfolding eq by (rule nth_mem)
    then have voc: "synthesis_type r \<in> set synthesis_vocabulary"
      using ok by (auto simp: table_ok_def)
    show "?Q (dn, d, i, idx) r"
      using made_row_id [OF md] idx voc st eq by simp
  qed
  then show ?thesis using r vocabulary_facts by blast
qed


lemma experimental_key_all:
  "list_all (\<lambda>dn. str_contains ''experimental'' dn = (dn = ''experimental''))
     (map fst domains)"
  by (simp add: domains_def)

lemma experimental_key:
  assumes "(dn, d) \<in> set domains"
  shows "str_contains ''experimental'' dn = (dn = ''experimental'')"
proof -
  have "fst (dn, d) \<in> fst ` set domains" using assms by (rule imageI)
  then have "dn \<in> set (map fst domains)" by simp
  then show ?thesis
    by (rule experimental_key_all [unfolded list_all_iff, rule_format])
qed


lemma made_name:
  assumes "made (dn, d, i, idx) r"
  shows "\<exists>prefix role. index_mod (prefixes d) i = Inr prefix \<and> name r = prefix @ '' '' @ role"
proof -
  from assms obtain g g' where "make_row dn d i idx g = Inr (r, g')"
    by (auto simp: made_def)
  from make_row_Inr [OF this] show ?thesis
    by (elim exE conjE, intro exI conjI)
qed

lemma positions_head:
  assumes "int k < snd (range_dom d) + 1 - fst (range_dom d)"
  shows "positions ((dn, d) # ds) ! k = (dn, d, k, fst (range_dom d) + int k)"
proof -
  have "k < nat (snd (range_dom d) + 1 - fst (range_dom d))" using assms by simp
  then show ?thesis
    by (simp add: positions_def enumerate_range_def nth_append)
qed

lemma domains_head:
  "domains = (''computer_history'', computer_history) # tl domains"
  by (simp add: domains_def)

lemma positions_first:
  "positions domains ! 0 = (''computer_history'', computer_history, 0, 1)"
  "positions domains ! 99 = (''computer_history'', computer_history, 99, 100)"
proof -
  have a: "int 0 < snd (range_dom computer_history) + 1 - fst (range_dom computer_history)"
    and b: "int 99 < snd (range_dom computer_history) + 1 - fst (range_dom computer_history)"
    by (simp_all add: ranges)
  show "positions domains ! 0 = (''computer_history'', computer_history, 0, 1)"
    using positions_head [OF a, of "''computer_history''" "tl domains"]
    by (simp add: domains_head [symmetric] ranges)
  show "positions domains ! 99 = (''computer_history'', computer_history, 99, 100)"
    using positions_head [OF b, of "''computer_history''" "tl domains"]
    by (simp add: domains_head [symmetric] ranges)
qed

lemma computer_history_prefixes:
  "length (prefixes computer_history) = 94"
  "prefixes computer_history ! 0 = ''Modem''"
  "prefixes computer_history ! 5 = ''Punch Card''"
  "prefixes computer_history ! 93 = ''Conference''"
  "last (prefixes computer_history) = ''Conference''"
  "synthesis_types computer_history ! 0 = ''fm''"
  "length (synthesis_types computer_history) = 10"
  by (simp_all add: computer_history_def)

lemma computer_history_index:
  "index_mod (prefixes computer_history) 0 = Inr ''Modem''"
  "index_mod (prefixes computer_history) 99 = Inr ''Punch Card''"
  "index_mod (prefixes computer_history) 93 = Inr ''Conference''"
  "index_mod (synthesis_types computer_history) 0 = Inr ''fm''"
  by (simp_all add: index_mod_def computer_history_prefixes)

text \<open>
  Claim C3, as the specification states it, fails in its second half: the prefix list of
  \<open>computer_history\<close> has 94 entries, not 100, so position 99 reads entry
  \<open>99 mod 94 = 5\<close>, which is \<open>Punch Card\<close>, and not the last entry \<open>Conference\<close>.
  With a random source of zeros, the loop body at position 99, id 100, returns the row
  named \<open>Punch Card Engine\<close>.
\<close>

theorem C3_counterexample:
  "length (prefixes computer_history) = 94 \<and>
   index_mod (prefixes computer_history) 99 = Inr ''Punch Card'' \<and>
   index_mod (prefixes computer_history) 99 \<noteq> Inr ''Conference'' \<and>
   map_sum id (\<lambda>p. (row_id (fst p), name (fst p)))
     (make_row ''computer_history'' computer_history 99 100 (\<lambda>i. 0))
     = Inr (100, ''Punch Card Engine'')"
proof -
  have f: "features \<noteq> []" by (simp add: features_def)
  have "map_sum id (\<lambda>p. (row_id (fst p), name (fst p)))
     (make_row ''computer_history'' computer_history 99 100 (\<lambda>i. 0))
     = Inr (100, ''Punch Card Engine'')"
    by (simp add: make_row_def computer_history_index role_word_total role_words_def
        generate_description_total choice_total f sample_total weirdness_total
        index_mod_def computer_history_prefixes split: prod.splits)
  then show ?thesis
    by (simp add: computer_history_index computer_history_prefixes)
qed

text \<open>
  Claim C3, amended. In every run the first row has id 1, a name that starts with the
  prefix \<open>Modem\<close> and synthesis type \<open>fm\<close>; the hundredth row has id 100 (the last id of
  \<open>computer_history\<close>) and a name that starts with the prefix \<open>Punch Card\<close>, which is
  entry \<open>99 mod 94 = 5\<close> of the 94 prefixes. \<open>Conference\<close> is the last prefix and is
  read at position 93 (id 94).
\<close>

theorem C3_first_and_hundredth_row:
  "\<exists>rows g'. generate_rows g = Inr (rows, g') \<and>
     row_id (rows ! 0) = 1 \<and>
     (\<exists>role. name (rows ! 0) = ''Modem'' @ '' '' @ role) \<and>
     synthesis_type (rows ! 0) = ''fm'' \<and>
     row_id (rows ! 99) = 100 \<and>
     (\<exists>role. name (rows ! 99) = ''Punch Card'' @ '' '' @ role) \<and>
     snd (range_dom computer_history) = 100 \<and>
     length (prefixes computer_history) = 94 \<and>
     index_mod (prefixes computer_history) 99 = Inr (prefixes computer_history ! 5) \<and>
     last (prefixes computer_history) = ''Conference'' \<and>
     index_mod (prefixes computer_history) 93 = Inr ''Conference''"
proof -
  obtain rows g' where r: "generate_rows g = Inr (rows, g')"
    and m: "list_all2 made (positions domains) rows"
    using generate_rows_made by blast
  have len: "length (positions domains) = 1000"
  proof -
    have "length (map (\<lambda>(dn, d, i, idx). idx) (positions domains)) = length [1..1000]"
      by (simp only: ids_positions)
    then show ?thesis by (simp del: upto_rec_numeral)
  qed
  have m0: "made (''computer_history'', computer_history, 0, 1) (rows ! 0)"
    using list_all2_nthD [OF m, of 0] by (simp add: len positions_first)
  have m99: "made (''computer_history'', computer_history, 99, 100) (rows ! 99)"
    using list_all2_nthD [OF m, of 99] by (simp add: len positions_first)
  have id0: "row_id (rows ! 0) = 1" using m0 by (rule made_row_id)
  have id99: "row_id (rows ! 99) = 100" using m99 by (rule made_row_id)
  have n0: "\<exists>role. name (rows ! 0) = ''Modem'' @ '' '' @ role"
  proof -
    from made_name [OF m0] obtain prefix role where
      "index_mod (prefixes computer_history) 0 = Inr prefix"
      "name (rows ! 0) = prefix @ '' '' @ role" by (elim exE conjE)
    then have "name (rows ! 0) = ''Modem'' @ '' '' @ role"
      by (simp add: computer_history_index)
    then show ?thesis by (rule exI [of _ role])
  qed
  have n99: "\<exists>role. name (rows ! 99) = ''Punch Card'' @ '' '' @ role"
  proof -
    from made_name [OF m99] obtain prefix role where
      "index_mod (prefixes computer_history) 99 = Inr prefix"
      "name (rows ! 99) = prefix @ '' '' @ role" by (elim exE conjE)
    then have "name (rows ! 99) = ''Punch Card'' @ '' '' @ role"
      by (simp add: computer_history_index)
    then show ?thesis by (rule exI [of _ role])
  qed
  have s0: "synthesis_type (rows ! 0) = ''fm''"
    using made_synthesis_type [OF m0] by (simp add: computer_history_index)
  have e: "snd (range_dom computer_history) = 100" by (simp add: ranges)
  have i99: "index_mod (prefixes computer_history) 99 = Inr (prefixes computer_history ! 5)"
    by (simp add: computer_history_index computer_history_prefixes)
  show ?thesis
    by (rule exI [of _ rows], rule exI [of _ g'])
       (intro conjI r id0 n0 s0 id99 n99 e i99 computer_history_prefixes
          computer_history_index)
qed


lemma sample_Inr:
  assumes "sample xs k h = Inr (gs, h')" and "distinct xs"
  shows "length gs = k \<and> distinct gs \<and> set gs \<subseteq> set xs"
proof -
  have k: "k \<le> length xs"
    using assms(1) by (cases "k \<le> length xs") (simp_all add: sample_def)
  then have "sample xs k h = Inr (sample_pool xs (length xs) k h)"
    by (simp add: sample_def)
  from assms(1) [unfolded this] have eq: "sample_pool xs (length xs) k h = (gs, h')"
    by (simp only: sum.inject)
  have gs: "fst (sample_pool xs (length xs) k h) = gs"
    by (simp only: eq fst_conv)
  have "distinct (take (length xs) xs)" using assms(2) by simp
  from sample_pool_props [OF k order_refl this, of h] show ?thesis
    unfolding gs by simp
qed

lemma made_genre_tags:
  assumes "made (dn, d, i, idx) r"
  shows "\<exists>gs (h :: rng) h'. sample (genres d) (min 3 (length (genres d))) h = Inr (gs, h') \<and>
           genre_tags r = join '';'' gs"
proof -
  from assms obtain g g' where "make_row dn d i idx g = Inr (r, g')"
    by (auto simp: made_def)
  from make_row_Inr [OF this] obtain g3 g4 gs where
    "sample (genres d) (min 3 (length (genres d))) g3 = Inr (gs, g4)"
    "genre_tags r = join '';'' gs"
    by (elim exE conjE)
  then show ?thesis
    by (intro exI [of _ gs] exI [of _ g3] exI [of _ g4] conjI)
qed

lemma domains_genres:
  "list_all (\<lambda>(domain_name, d).
      8 \<le> length (genres d) \<and> min 3 (length (genres d)) = 3 \<and> distinct (genres d)) domains"
  using domains_table_ok by (simp add: domains_def table_ok_def)

text \<open>
  Claim C5. In every run, every row's genre tags are the join with \<open>;\<close> of a sample of
  \<open>min 3 (length genres)\<close> entries of the owning domain's genre list; the sampled
  entries are pairwise distinct and members of that list; every genre list has 8 distinct
  entries, so the sample size is 3; and since no genre contains \<open>;\<close>, splitting the tags
  at \<open>;\<close> gives back exactly these 3 distinct members of the list.
\<close>

theorem C5_genre_tags:
  "\<exists>rows g'. generate_rows g = Inr (rows, g') \<and>
     list_all2 (\<lambda>(domain_name, d, i, idx) r.
         row_id r = idx \<and>
         (\<exists>gs (h :: rng) h'.
            sample (genres d) (min 3 (length (genres d))) h = Inr (gs, h') \<and>
            genre_tags r = join '';'' gs \<and>
            length gs = min 3 (length (genres d)) \<and> distinct gs \<and>
            set gs \<subseteq> set (genres d) \<and>
            split_on CHR '';'' (genre_tags r) = gs) \<and>
         length (split_on CHR '';'' (genre_tags r)) = 3 \<and>
         distinct (split_on CHR '';'' (genre_tags r)) \<and>
         set (split_on CHR '';'' (genre_tags r)) \<subseteq> set (genres d))
       (positions domains) rows \<and>
     list_all (\<lambda>(domain_name, d).
         8 \<le> length (genres d) \<and> min 3 (length (genres d)) = 3 \<and> distinct (genres d))
       domains"
proof -
  obtain rows g' where r: "generate_rows g = Inr (rows, g')"
    and m: "list_all2 made (positions domains) rows"
    using generate_rows_made by blast
  let ?Q = "\<lambda>(domain_name :: string, d :: domain, i :: nat, idx) r :: row.
         row_id r = idx \<and>
         (\<exists>gs (h :: rng) h'.
            sample (genres d) (min 3 (length (genres d))) h = Inr (gs, h') \<and>
            genre_tags r = join '';'' gs \<and>
            length gs = min 3 (length (genres d)) \<and> distinct gs \<and>
            set gs \<subseteq> set (genres d) \<and>
            split_on CHR '';'' (genre_tags r) = gs) \<and>
         length (split_on CHR '';'' (genre_tags r)) = 3 \<and>
         distinct (split_on CHR '';'' (genre_tags r)) \<and>
         set (split_on CHR '';'' (genre_tags r)) \<subseteq> set (genres d)"
  have "list_all2 ?Q (positions domains) rows"
    using m
  proof (rule made_lift)
    fix dn d i idx r
    assume p: "(dn, d, i, idx) \<in> set (positions domains)" and md: "made (dn, d, i, idx) r"
    have mem: "(dn, d) \<in> set domains" using positions_mem [OF p] by simp
    have ok: "table_ok d" using mem domains_table_ok by (auto simp: list_all_iff)
    have l8: "length (genres d) = 8" and dist: "distinct (genres d)"
      and nosep: "list_all (\<lambda>s. CHR '';'' \<notin> set s) (genres d)"
      using ok by (simp_all add: table_ok_def)
    have k3: "min 3 (length (genres d)) = 3" by (simp add: l8)
    from made_genre_tags [OF md] obtain gs and h :: rng and h' where
      s: "sample (genres d) (min 3 (length (genres d))) h = Inr (gs, h')" and
      t: "genre_tags r = join '';'' gs"
      by (elim exE conjE)
    have props: "length gs = min 3 (length (genres d)) \<and> distinct gs \<and> set gs \<subseteq> set (genres d)"
      using s dist by (rule sample_Inr)
    then have len: "length gs = 3" and dg: "distinct gs" and sub: "set gs \<subseteq> set (genres d)"
      by (simp_all add: k3)
    have ne: "gs \<noteq> []" using len by auto
    have "\<forall>x\<in>set gs. CHR '';'' \<notin> set x"
      using sub nosep by (auto simp: list_all_iff)
    with ne have sp: "split_on CHR '';'' (genre_tags r) = gs"
      unfolding t by (rule split_on_join)
    have ex: "\<exists>gs (h :: rng) h'.
            sample (genres d) (min 3 (length (genres d))) h = Inr (gs, h') \<and>
            genre_tags r = join '';'' gs \<and>
            length gs = min 3 (length (genres d)) \<and> distinct gs \<and>
            set gs \<subseteq> set (genres d) \<and>
            split_on CHR '';'' (genre_tags r) = gs"
      using s t props sp
      by (intro exI [of _ gs] exI [of _ h] exI [of _ h']) simp
    have l3: "length (split_on CHR '';'' (genre_tags r)) = 3"
      and d3: "distinct (split_on CHR '';'' (genre_tags r))"
      and s3: "set (split_on CHR '';'' (genre_tags r)) \<subseteq> set (genres d)"
      using len dg sub unfolding sp by this+
    have rid: "row_id r = idx" using md by (rule made_row_id)
    show "?Q (dn, d, i, idx) r"
      unfolding prod.case by (intro conjI rid ex l3 d3 s3)
  qed
  then show ?thesis
    using r domains_genres
    by (intro exI [of _ rows] exI [of _ g'] conjI)
qed


lemma role_word_Inr:
  assumes "role_word h = Inr (role, h')"
  shows "role = (if 2 ^ 52 < h 0 mod 2 ^ 53 then ''Synth'' else role_words ! (h 1 mod 8))"
proof (cases "(2::nat) ^ 52 < h 0 mod 2 ^ 53")
  case True
  then have "role_word h = Inr (''Synth'', \<lambda>i. h (Suc i))"
    by (simp only: role_word_total if_True)
  from assms [unfolded this] have "''Synth'' = role" by (simp only: sum.inject prod.inject)
  then show ?thesis using True by (simp only: if_True)
next
  case False
  then have "role_word h = Inr (role_words ! (h 1 mod 8), \<lambda>i. h (Suc (Suc i)))"
    by (simp only: role_word_total if_False)
  from assms [unfolded this] have "role_words ! (h 1 mod 8) = role"
    by (simp only: sum.inject prod.inject)
  then show ?thesis using False by (simp only: if_False)
qed

lemma role_words_facts:
  "length role_words = 8" "distinct role_words" "''Synth'' \<notin> set role_words"
  "card (set role_words) = 8"
proof -
  show l: "length role_words = 8" by (simp add: role_words_def)
  show d: "distinct role_words" by (simp add: role_words_def)
  show "''Synth'' \<notin> set role_words" by (simp add: role_words_def)
  show "card (set role_words) = 8" using distinct_card [OF d] l by simp
qed


lemma generate_description_Inr:
  assumes "generate_description prefix dn h = Inr (desc, h')"
  shows "desc = templates prefix ! (h 0 mod 10)"
proof -
  from assms [unfolded generate_description_total]
  have "templates prefix ! (h 0 mod 10) = desc" by (simp only: sum.inject prod.inject)
  then show ?thesis by (rule sym)
qed

lemma templates_shapes: "templates prefix = map (fill prefix) template_shapes"
  by (simp add: templates_def template_shapes_def fill_def)

lemma template_shapes_facts:
  "length template_shapes = 10"
  "distinct template_shapes"
  "map (\<lambda>(before, lowered, after). lowered) template_shapes =
     [False, True, False, True, True, True, True, True, True, True]"
  by (simp_all add: template_shapes_def)


section \<open>The text of the file\<close>

lemma csv_special_iff: "csv_special c \<longleftrightarrow> (of_char c :: nat) \<in> {44, 34, 13, 10}"
proof -
  have a: "c = CHR '','' \<longleftrightarrow> (of_char c :: nat) = 44"
    using of_char_eq_iff [of c "CHR '',''", where ?'a = nat] by simp
  have b: "c = CHR 0x22 \<longleftrightarrow> (of_char c :: nat) = 34"
    using of_char_eq_iff [of c "CHR 0x22", where ?'a = nat] by simp
  have d: "c = CHR 0x0D \<longleftrightarrow> (of_char c :: nat) = 13"
    using of_char_eq_iff [of c "CHR 0x0D", where ?'a = nat] by simp
  have e: "c = CHR 0x0A \<longleftrightarrow> (of_char c :: nat) = 10"
    using of_char_eq_iff [of c "CHR 0x0A", where ?'a = nat] by simp
  show ?thesis unfolding csv_special_def a b d e by simp
qed

lemma csv_special_char_of:
  "n < 256 \<Longrightarrow> csv_special (char_of n) \<longleftrightarrow> (n :: nat) \<in> {44, 34, 13, 10}"
  by (simp add: csv_special_iff)

lemma lower_char_special: "csv_special (lower_char c) \<Longrightarrow> csv_special c"
proof -
  assume s: "csv_special (lower_char c)"
  define n where "n = (of_char c :: nat)"
  define up where "up \<longleftrightarrow> (65 \<le> n \<and> n \<le> 90) \<or> (192 \<le> n \<and> n \<le> 222 \<and> n \<noteq> 215)"
  have l: "lower_char c = (if up then char_of (n + 32) else c)"
    by (simp add: lower_char_def Let_def n_def up_def)
  show ?thesis
  proof (cases up)
    case True
    then have l': "lower_char c = char_of (n + 32)" by (simp only: l if_True)
    have "n + 32 < 256" using True unfolding up_def by auto
    then have "n + 32 \<in> {44, 34, 13, 10}"
      using s unfolding l' by (simp add: csv_special_char_of)
    then show ?thesis using True unfolding up_def by auto
  next
    case False
    then have "lower_char c = c" by (simp only: l if_False)
    then show ?thesis using s by simp
  qed
qed

lemma plain_Nil: "plain []"
  by (simp add: plain_def)

lemma plain_Cons: "plain (c # s) \<longleftrightarrow> \<not> csv_special c \<and> plain s"
  by (simp add: plain_def)

lemma plain_append: "plain (a @ b) \<longleftrightarrow> plain a \<and> plain b"
  by (simp add: plain_def)

lemma plain_lower: "plain s \<Longrightarrow> plain (lower s)"
  using lower_char_special by (auto simp: plain_def lower_def list_all_iff)

lemma plain_str_nat: "plain (str_nat n)"
proof (induction n rule: str_nat.induct)
  case (1 n)
  have d: "plain [char_of (48 + k)]" if "k < 10" for k :: nat
    using that by (simp add: plain_def csv_special_char_of)
  show ?case
  proof (cases "n < 10")
    case True
    then have "str_nat n = [char_of (48 + n)]" by (subst str_nat.simps) simp
    then show ?thesis using d [OF True] by simp
  next
    case False
    then have e: "str_nat n = str_nat (n div 10) @ [char_of (48 + n mod 10)]"
      by (subst str_nat.simps) simp
    have "n mod 10 < 10" by simp
    then show ?thesis
      unfolding e plain_append using 1 [OF False] d by blast
  qed
qed

lemma plain_str_int: "plain (str_int n)"
proof -
  have "plain [CHR ''-'']" by (simp add: plain_def csv_special_def)
  then show ?thesis
    using plain_str_nat plain_append [of "[CHR ''-'']"] by (simp add: str_int_def)
qed

lemma plain_join:
  "list_all plain xs \<Longrightarrow> plain sep \<Longrightarrow> plain (join sep xs)"
  by (induction sep xs rule: join.induct) (simp_all add: plain_append plain_Nil)

lemma plain_templates: "plain prefix \<Longrightarrow> list_all plain (templates prefix)"
  by (simp add: templates_def plain_append plain_lower plain_Cons plain_Nil csv_special_def)

lemma plain_role_words: "plain ''Synth''" "list_all plain role_words"
  by (simp_all add: role_words_def plain_def csv_special_def)

lemma plain_features: "list_all plain features"
  by (simp add: features_def plain_def csv_special_def)

lemma tables_plain:
  "table_plain computer_history" "table_plain vintage_synths" "table_plain natural_phenomena"
  "table_plain industrial" "table_plain scientific" "table_plain world_instruments"
  "table_plain space_cosmic" "table_plain biological" "table_plain experimental"
  "table_plain generative"
  by (simp_all add: table_plain_def plain_def csv_special_def computer_history_def
      vintage_synths_def natural_phenomena_def industrial_def scientific_def
      world_instruments_def space_cosmic_def biological_def experimental_def generative_def)

lemma domains_table_plain: "list_all (\<lambda>(dn, d). table_plain d) domains"
  by (simp add: domains_def tables_plain)


lemma plain_nth: "list_all plain xs \<Longrightarrow> k < length xs \<Longrightarrow> plain (xs ! k)"
  by (simp add: list_all_length)

lemma choice_Inr:
  assumes "choice seq h = Inr (x, h')" and "seq \<noteq> []"
  shows "x = seq ! (h 0 mod length seq)"
proof -
  from assms(1) [unfolded choice_total [OF assms(2)]]
  have "seq ! (h 0 mod length seq) = x" by (simp only: sum.inject prod.inject)
  then show ?thesis by (rule sym)
qed

lemma index_mod_Inr:
  assumes "index_mod xs i = Inr x" and "xs \<noteq> []"
  shows "x = xs ! (i mod length xs)"
proof -
  from assms(1) [unfolded index_mod_total [OF assms(2)]]
  have "xs ! (i mod length xs) = x" by (simp only: sum.inject)
  then show ?thesis by (rule sym)
qed

lemma made_fields_plain:
  assumes md: "made (dn, d, i, idx) r" and ok: "table_ok d" and pl: "table_plain d"
  shows "list_all plain (row_fields r)"
proof -
  have ne: "prefixes d \<noteq> []" "synthesis_types d \<noteq> []" and dist: "distinct (genres d)"
    using ok by (simp_all add: table_ok_def)
  have tp: "list_all plain (prefixes d)" "list_all plain (synthesis_types d)"
    "list_all plain (genres d)"
    using pl by (simp_all add: table_plain_def)
  from md obtain g g' where "make_row dn d i idx g = Inr (r, g')"
    by (auto simp: made_def)
  from make_row_Inr [OF this] obtain prefix role g1 g2 g3 g4 genre where
    p: "index_mod (prefixes d) i = Inr prefix" and
    ro: "role_word g = Inr (role, g1)" and
    de: "generate_description prefix dn g1 = Inr (description r, g2)" and
    st: "index_mod (synthesis_types d) i = Inr (synthesis_type r)" and
    fe: "choice features g2 = Inr (key_feature r, g3)" and
    sa: "sample (genres d) (min 3 (length (genres d))) g3 = Inr (genre, g4)" and
    gt: "genre_tags r = join '';'' genre" and
    n: "name r = prefix @ '' '' @ role"
    by (elim exE conjE)
  have "i mod length (prefixes d) < length (prefixes d)" using ne(1) by simp
  then have pp: "plain prefix"
    unfolding index_mod_Inr [OF p ne(1)] using tp(1) plain_nth by blast
  have "plain (role_words ! (g 1 mod 8))"
    using plain_role_words(2) by (rule plain_nth) (simp add: role_words_length)
  then have pr: "plain role"
    unfolding role_word_Inr [OF ro] using plain_role_words(1) by simp
  have f1: "plain (name r)"
    unfolding n using pp pr by (simp add: plain_append plain_Cons plain_Nil csv_special_def)
  have f2: "plain (description r)"
    unfolding generate_description_Inr [OF de]
    using plain_templates [OF pp] by (rule plain_nth) (simp add: templates_length)
  have "i mod length (synthesis_types d) < length (synthesis_types d)" using ne(2) by simp
  then have f3: "plain (synthesis_type r)"
    unfolding index_mod_Inr [OF st ne(2)] using tp(2) plain_nth by blast
  have fne: "features \<noteq> []" by (simp add: features_def)
  have f4: "plain (key_feature r)"
    unfolding choice_Inr [OF fe fne]
    using plain_features by (rule plain_nth) (simp add: features_length)
  have "set genre \<subseteq> set (genres d)" using sample_Inr [OF sa dist] by simp
  then have "list_all plain genre" using tp(3) by (auto simp: list_all_iff)
  moreover have "plain '';''" by (simp add: plain_def csv_special_def)
  ultimately have f5: "plain (genre_tags r)" unfolding gt by (rule plain_join)
  show ?thesis
    by (simp add: row_fields_def plain_str_int f1 f2 f3 f4 f5)
qed

lemma csv_field_plain: "plain s \<Longrightarrow> csv_field s = s"
  by (simp add: csv_field_def plain_def list_ex_iff list_all_iff)

lemma writerow_plain:
  assumes "list_all plain flds" and "flds \<noteq> [[]]"
  shows "writerow flds = join '','' flds @ [CHR 0x0D, CHR 0x0A]"
proof -
  have "map csv_field flds = flds"
    using assms(1) by (induction flds) (simp_all add: csv_field_plain)
  then show ?thesis using assms(2) by (simp add: writerow_def)
qed

lemma plain_no_comma: "plain s \<Longrightarrow> CHR '','' \<notin> set s"
  by (auto simp: plain_def list_all_iff csv_special_def)

lemma split_fields:
  assumes "list_all plain flds" and "flds \<noteq> []"
  shows "split_on CHR '','' (join '','' flds) = flds"
proof -
  have "\<forall>x\<in>set flds. CHR '','' \<notin> set x"
    using assms(1) plain_no_comma by (auto simp: list_all_iff)
  with assms(2) show ?thesis by (rule split_on_join)
qed

lemma writerow_header:
  "writerow header =
     ''id,name,description,synthesis_type,key_feature,genre_tags,weirdness_level''
     @ [CHR 0x0D, CHR 0x0A]"
  by (simp add: writerow_def header_def csv_field_def csv_special_def)

text \<open>
  Claim C7. In every run the text of the file is the header line
  \<open>id,name,description,synthesis_type,key_feature,genre_tags,weirdness_level\<close>
  followed by one line per row, each ended by CR LF, for exactly 1000 rows with the ids
  1, 2, ..., 1000 in this order. Every line is what \<^verbatim>\<open>csv.writer\<close> writes for the row's
  seven fields; no field of any row holds a comma, a quote, a CR or an LF, so minimal
  quoting leaves every field as it is, each line is the seven fields joined with commas,
  and splitting it at the commas gives the seven fields back, the first of which is the
  decimal id.
\<close>

theorem C7_file_format:
  "\<exists>rows g'. generate_rows g = Inr (rows, g') \<and>
     generate g =
       Inr (''id,name,description,synthesis_type,key_feature,genre_tags,weirdness_level''
            @ [CHR 0x0D, CHR 0x0A]
            @ concat (map (\<lambda>r. writerow (row_fields r)) rows), g') \<and>
     length rows = 1000 \<and>
     map row_id rows = [1..1000] \<and>
     list_all (\<lambda>r.
         writerow (row_fields r) = join '','' (row_fields r) @ [CHR 0x0D, CHR 0x0A] \<and>
         length (row_fields r) = 7 \<and>
         list_all plain (row_fields r) \<and>
         split_on CHR '','' (join '','' (row_fields r)) = row_fields r \<and>
         hd (row_fields r) = str_int (row_id r)) rows"
proof -
  obtain rows g' where r: "generate_rows g = Inr (rows, g')"
    and m: "list_all2 made (positions domains) rows"
    using generate_rows_made by blast
  have ids: "map row_id rows = [1..1000]"
    using made_ids [OF m] by (simp only: ids_positions)
  have len: "length rows = 1000"
  proof -
    have "length (map row_id rows) = length [1..1000]" by (simp only: ids)
    then show ?thesis by (simp del: upto_rec_numeral)
  qed
  have gen: "generate g =
       Inr (''id,name,description,synthesis_type,key_feature,genre_tags,weirdness_level''
            @ [CHR 0x0D, CHR 0x0A]
            @ concat (map (\<lambda>r. writerow (row_fields r)) rows), g')"
    by (simp add: generate_def r writerow_header)
  let ?P = "\<lambda>r :: row.
         writerow (row_fields r) = join '','' (row_fields r) @ [CHR 0x0D, CHR 0x0A] \<and>
         length (row_fields r) = 7 \<and>
         list_all plain (row_fields r) \<and>
         split_on CHR '','' (join '','' (row_fields r)) = row_fields r \<and>
         hd (row_fields r) = str_int (row_id r)"
  have "list_all2 (\<lambda>p r. ?P r) (positions domains) rows"
    using m
  proof (rule made_lift)
    fix dn d i idx r
    assume p: "(dn, d, i, idx) \<in> set (positions domains)" and md: "made (dn, d, i, idx) r"
    have mem: "(dn, d) \<in> set domains" using positions_mem [OF p] by simp
    have ok: "table_ok d" using mem domains_table_ok by (auto simp: list_all_iff)
    have pl: "table_plain d" using mem domains_table_plain by (auto simp: list_all_iff)
    have fp: "list_all plain (row_fields r)" using md ok pl by (rule made_fields_plain)
    have l7: "length (row_fields r) = 7" by (simp add: row_fields_def)
    then have ne: "row_fields r \<noteq> []" and ne1: "row_fields r \<noteq> [[]]" by auto
    have w: "writerow (row_fields r) = join '','' (row_fields r) @ [CHR 0x0D, CHR 0x0A]"
      using fp ne1 by (rule writerow_plain)
    have sp: "split_on CHR '','' (join '','' (row_fields r)) = row_fields r"
      using fp ne by (rule split_fields)
    have h: "hd (row_fields r) = str_int (row_id r)" by (simp add: row_fields_def)
    show "?P r" by (intro conjI w l7 fp sp h)
  qed
  then have all: "list_all ?P rows"
    by (auto simp: list_all2_conv_all_nth list_all_length)
  show ?thesis
    by (rule exI [of _ rows], rule exI [of _ g']) (intro conjI r gen len ids all)
qed


section \<open>The draws a row takes\<close>

lemma drop_draws_apply: "drop_draws k g i = g (k + i)"
  by (simp add: drop_draws_def)

lemma drop_draws_0: "drop_draws 0 g = g"
  by (simp add: drop_draws_def)

lemma drop_draws_add: "drop_draws a (drop_draws b g) = drop_draws (b + a) g"
  by (simp add: drop_draws_def add.assoc)

lemma tail_drop: "(\<lambda>i. g (Suc i)) = drop_draws 1 g"
  by (simp add: drop_draws_def)

lemma tail2_drop: "(\<lambda>i. g (Suc (Suc i))) = drop_draws 2 g"
  by (simp add: drop_draws_def)

lemma choice_drop:
  "seq \<noteq> [] \<Longrightarrow> choice seq g = Inr (seq ! (g 0 mod length seq), drop_draws 1 g)"
  unfolding tail_drop [symmetric] by (rule choice_total)

lemma role_word_drop:
  "role_word g =
     Inr (if 2 ^ 52 < g 0 mod 2 ^ 53 then ''Synth'' else role_words ! (g 1 mod 8),
          drop_draws (role_draws g) g)"
  unfolding role_word_total role_draws_def tail_drop tail2_drop by simp

lemma generate_description_drop:
  "generate_description prefix dn g = Inr (templates prefix ! (g 0 mod 10), drop_draws 1 g)"
  unfolding tail_drop [symmetric] by (rule generate_description_total)

lemma weirdness_drop:
  "weirdness dn g =
     Inr (if str_contains ''experimental'' dn then 6 + int (g 0 mod 5)
          else 2 + int (g 0 mod 8), drop_draws 1 g)"
  unfolding tail_drop [symmetric] by (rule weirdness_total)

lemma sample_pool_snd: "snd (sample_pool pool m k g) = drop_draws k g"
proof (induction k arbitrary: pool m g)
  case 0
  show ?case by (simp add: drop_draws_0)
next
  case (Suc k)
  have "snd (sample_pool pool m (Suc k) g) =
        snd (sample_pool (pool[g 0 mod m := pool ! (m - 1)]) (m - 1) k (drop_draws 1 g))"
    by (simp add: randbelow_def draw_def tail_drop split: prod.splits)
  also have "\<dots> = drop_draws k (drop_draws 1 g)" by (rule Suc.IH)
  also have "\<dots> = drop_draws (Suc k) g" by (simp add: drop_draws_add)
  finally show ?case .
qed

lemma sample_drop:
  "sample xs (min 3 (length xs)) g =
     Inr (fst (sample_pool xs (length xs) (min 3 (length xs)) g),
          drop_draws (min 3 (length xs)) g)"
proof -
  have e: "snd (sample_pool xs (length xs) (min 3 (length xs)) g) =
           drop_draws (min 3 (length xs)) g"
    by (rule sample_pool_snd)
  show ?thesis unfolding sample_total e [symmetric] by simp
qed

text \<open>The loop body in closed form, on a domain whose lists pass \<open>table_ok\<close>: which
  draw of the source each field reads.\<close>

lemma make_row_closed:
  assumes ok: "table_ok d"
  shows "make_row dn d i idx g =
     Inr (\<lparr>row_id = idx,
           name = prefixes d ! (i mod length (prefixes d)) @ '' '' @
             (if 2 ^ 52 < g 0 mod 2 ^ 53 then ''Synth'' else role_words ! (g 1 mod 8)),
           description =
             templates (prefixes d ! (i mod length (prefixes d))) ! (g (role_draws g) mod 10),
           synthesis_type = synthesis_types d ! (i mod length (synthesis_types d)),
           key_feature = features ! (g (role_draws g + 1) mod 32),
           genre_tags =
             join '';'' (fst (sample_pool (genres d) 8 3 (drop_draws (role_draws g + 2) g))),
           weirdness_level =
             (if str_contains ''experimental'' dn then 6 + int (g (role_draws g + 5) mod 5)
              else 2 + int (g (role_draws g + 5) mod 8))\<rparr>,
          drop_draws (role_draws g + 6) g)"
proof -
  have ne: "prefixes d \<noteq> []" "synthesis_types d \<noteq> []" and l8: "length (genres d) = 8"
    using ok by (simp_all add: table_ok_def)
  have f: "features \<noteq> []" by (simp add: features_def)
  have k3: "min 3 (length (genres d)) = 3" by (simp add: l8)
  have s: "sample (genres d) (min 3 (length (genres d))) h =
             Inr (fst (sample_pool (genres d) 8 3 h), drop_draws 3 h)" for h
    using sample_drop [of "genres d" h] by (simp add: l8)
  show ?thesis
    by (simp add: make_row_def index_mod_total [OF ne(1)] index_mod_total [OF ne(2)]
        role_word_drop generate_description_drop choice_drop [OF f] s weirdness_drop
        drop_draws_add drop_draws_apply features_length add.commute)
qed


lemma make_row_at:
  assumes ok: "table_ok d"
  shows "\<exists>r. at_row g (k, dn, d, i, idx) r"
proof -
  let ?h = "drop_draws (row_start g k) g"
  have e: "drop_draws (role_draws ?h + 6) ?h = drop_draws (row_start g (Suc k)) g"
    by (simp add: drop_draws_add add.assoc)
  note c = make_row_closed [OF ok, of dn i idx ?h, unfolded e]
  show ?thesis
    unfolding at_row_def prod.case by (intro exI) (rule c)
qed

lemma domain_loop_trace:
  assumes ok: "table_ok d"
  shows "\<exists>rows. domain_loop dn d ps (drop_draws (row_start g k) g)
                  = Inr (rows, drop_draws (row_start g (k + length ps)) g) \<and>
                list_all2 (at_row g) (enumerate k (map (\<lambda>p. (dn, d, p)) ps)) rows"
proof (induction ps arbitrary: k)
  case Nil
  show ?case by simp
next
  case (Cons p ps)
  obtain i idx where p: "p = (i, idx)" by (cases p)
  from make_row_at [OF ok, of g k dn i idx] obtain r where a: "at_row g (k, dn, d, i, idx) r" ..
  then have r: "make_row dn d i idx (drop_draws (row_start g k) g)
                  = Inr (r, drop_draws (row_start g (Suc k)) g)"
    by (simp only: at_row_def prod.case)
  from Cons.IH [of "Suc k"] obtain rs where
    l: "domain_loop dn d ps (drop_draws (row_start g (Suc k)) g)
          = Inr (rs, drop_draws (row_start g (Suc k + length ps)) g)" and
    t: "list_all2 (at_row g) (enumerate (Suc k) (map (\<lambda>p. (dn, d, p)) ps)) rs"
    by (elim exE conjE)
  have c1: "domain_loop dn d (p # ps) (drop_draws (row_start g k) g)
              = Inr (r # rs, drop_draws (row_start g (k + length (p # ps))) g)"
    unfolding p domain_loop.simps r using l by simp
  have c2: "list_all2 (at_row g) (enumerate k (map (\<lambda>p. (dn, d, p)) (p # ps))) (r # rs)"
    using a t by (simp add: p)
  show ?case by (intro exI [of _ "r # rs"] conjI c1 c2)
qed

lemma domains_loop_trace:
  assumes "list_all (\<lambda>(dn, d). table_ok d) ds"
  shows "\<exists>rows. domains_loop ds (drop_draws (row_start g k) g)
                  = Inr (rows, drop_draws (row_start g (k + length (positions ds))) g) \<and>
                list_all2 (at_row g) (enumerate k (positions ds)) rows"
  using assms
proof (induction ds arbitrary: k)
  case Nil
  show ?case by (simp add: positions_def)
next
  case (Cons a ds)
  obtain dn d where a: "a = (dn, d)" by (cases a)
  let ?ps = "enumerate_range (fst (range_dom d)) (snd (range_dom d))"
  have ok: "table_ok d" using Cons.prems by (simp add: a)
  have rest: "list_all (\<lambda>(dn, d). table_ok d) ds" using Cons.prems by simp
  have pos: "positions (a # ds) = map (\<lambda>p. (dn, d, p)) ?ps @ positions ds"
    by (simp add: positions_def a)
  from domain_loop_trace [OF ok, of dn ?ps g k] obtain rs where
    l1: "domain_loop dn d ?ps (drop_draws (row_start g k) g)
           = Inr (rs, drop_draws (row_start g (k + length ?ps)) g)" and
    t1: "list_all2 (at_row g) (enumerate k (map (\<lambda>p. (dn, d, p)) ?ps)) rs"
    by (elim exE conjE)
  from Cons.IH [OF rest, of "k + length ?ps"] obtain rs' where
    l2: "domains_loop ds (drop_draws (row_start g (k + length ?ps)) g)
           = Inr (rs', drop_draws (row_start g (k + length ?ps + length (positions ds))) g)" and
    t2: "list_all2 (at_row g) (enumerate (k + length ?ps) (positions ds)) rs'"
    by (elim exE conjE)
  have c1: "domains_loop (a # ds) (drop_draws (row_start g k) g)
              = Inr (rs @ rs', drop_draws (row_start g (k + length (positions (a # ds)))) g)"
    unfolding a domains_loop.simps l1 using l2 by (simp add: pos [unfolded a] add.assoc)
  have c2: "list_all2 (at_row g) (enumerate k (positions (a # ds))) (rs @ rs')"
    unfolding pos enumerate_append_eq using t1 t2 by (simp add: list_all2_appendI)
  show ?case by (intro exI [of _ "rs @ rs'"] conjI c1 c2)
qed

lemma length_positions_domains: "length (positions domains) = 1000"
proof -
  have "length (map (\<lambda>(dn, d, i, idx). idx) (positions domains)) = length [1..1000]"
    by (simp only: ids_positions)
  then show ?thesis by (simp del: upto_rec_numeral)
qed

lemma generate_rows_trace:
  "\<exists>rows. generate_rows g = Inr (rows, drop_draws (row_start g 1000) g) \<and>
          list_all2 (at_row g) (enumerate 0 (positions domains)) rows"
  using domains_loop_trace [OF domains_table_ok, of g 0]
  by (simp add: generate_rows_def drop_draws_0 length_positions_domains)

lemma at_row_lift:
  assumes "list_all2 (at_row g) (enumerate n ps) rows"
    and "\<And>k dn d i idx r. (dn, d, i, idx) \<in> set ps \<Longrightarrow> at_row g (k, dn, d, i, idx) r \<Longrightarrow>
           Q (k, dn, d, i, idx) r"
  shows "list_all2 Q (enumerate n ps) rows"
  using assms(1)
proof (rule list.rel_mono_strong)
  fix kp r assume kp: "kp \<in> set (enumerate n ps)" and m: "at_row g kp r"
  obtain k dn d i idx where e: "kp = (k, dn, d, i, idx)" by (cases kp)
  have "snd kp \<in> snd ` set (enumerate n ps)" using kp by (rule imageI)
  then have "(dn, d, i, idx) \<in> set ps"
    unfolding set_map [symmetric] map_snd_enumerate by (simp add: e)
  then show "Q kp r" using assms(2) m unfolding e by blast
qed

text \<open>What a row of the run holds, in terms of the draws of the run's own source.\<close>

lemma at_row_fields:
  assumes a: "at_row g (k, dn, d, i, idx) r" and ok: "table_ok d"
  shows "row_id r = idx"
    and "name r = prefixes d ! (i mod length (prefixes d)) @ '' '' @
           (if 2 ^ 52 < g (row_start g k) mod 2 ^ 53 then ''Synth''
            else role_words ! (g (row_start g k + 1) mod 8))"
    and "description r =
           templates (prefixes d ! (i mod length (prefixes d))) !
             (g (row_start g k + role_draws (drop_draws (row_start g k) g)) mod 10)"
    and "weirdness_level r =
           (if str_contains ''experimental'' dn
            then 6 + int (g (row_start g k + role_draws (drop_draws (row_start g k) g) + 5) mod 5)
            else 2 + int (g (row_start g k + role_draws (drop_draws (row_start g k) g) + 5) mod 8))"
proof -
  let ?h = "drop_draws (row_start g k) g"
  let ?R = "\<lparr>row_id = idx,
           name = prefixes d ! (i mod length (prefixes d)) @ '' '' @
             (if 2 ^ 52 < ?h 0 mod 2 ^ 53 then ''Synth'' else role_words ! (?h 1 mod 8)),
           description =
             templates (prefixes d ! (i mod length (prefixes d))) ! (?h (role_draws ?h) mod 10),
           synthesis_type = synthesis_types d ! (i mod length (synthesis_types d)),
           key_feature = features ! (?h (role_draws ?h + 1) mod 32),
           genre_tags =
             join '';'' (fst (sample_pool (genres d) 8 3 (drop_draws (role_draws ?h + 2) ?h))),
           weirdness_level =
             (if str_contains ''experimental'' dn then 6 + int (?h (role_draws ?h + 5) mod 5)
              else 2 + int (?h (role_draws ?h + 5) mod 8))\<rparr>"
  have "Inr (r, drop_draws (row_start g (Suc k)) g) =
        (Inr (?R, drop_draws (role_draws ?h + 6) ?h) :: error + row \<times> rng)"
    using a unfolding at_row_def prod.case make_row_closed [OF ok] by (rule sym)
  then have r: "r = ?R" by (simp only: sum.inject prod.inject)
  show "row_id r = idx" by (simp add: r)
  show "name r = prefixes d ! (i mod length (prefixes d)) @ '' '' @
           (if 2 ^ 52 < g (row_start g k) mod 2 ^ 53 then ''Synth''
            else role_words ! (g (row_start g k + 1) mod 8))"
    by (simp add: r drop_draws_apply)
  show "description r =
           templates (prefixes d ! (i mod length (prefixes d))) !
             (g (row_start g k + role_draws (drop_draws (row_start g k) g)) mod 10)"
    by (simp add: r drop_draws_apply)
  show "weirdness_level r =
           (if str_contains ''experimental'' dn
            then 6 + int (g (row_start g k + role_draws (drop_draws (row_start g k) g) + 5) mod 5)
            else 2 + int (g (row_start g k + role_draws (drop_draws (row_start g k) g) + 5) mod 8))"
    by (simp add: r drop_draws_apply add.assoc)
qed


lemma row_start_less: "row_start g k < row_start g (Suc k)"
  by simp

lemma weirdness_draw_index:
  "row_start g k + role_draws (drop_draws (row_start g k) g) + 5 = row_start g (Suc k) - 1"
  by simp

lemma weirdness_value:
  "map_sum id fst (weirdness dn h) =
     Inr (if str_contains ''experimental'' dn then 6 + int (h 0 mod 5) else 2 + int (h 0 mod 8))"
  by (simp add: weirdness_total)

lemma weirdness_residues:
  "map (\<lambda>x. map_sum id fst (weirdness ''experimental'' (\<lambda>i. x))) [0..<5] =
     [Inr 6, Inr 7, Inr 8, Inr 9, Inr 10]"
  "map (\<lambda>x. map_sum id fst (weirdness ''generative'' (\<lambda>i. x))) [0..<8] =
     [Inr 2, Inr 3, Inr 4, Inr 5, Inr 6, Inr 7, Inr 8, Inr 9]"
  by (simp_all add: weirdness_value upt_rec)

lemma level_draws:
  assumes "a \<le> v" and "v < a + int n"
  shows "{x. x < n \<and> a + int (x mod n) = v} = {nat (v - a)}"
proof (rule set_eqI)
  fix x :: nat
  show "x \<in> {x. x < n \<and> a + int (x mod n) = v} \<longleftrightarrow> x \<in> {nat (v - a)}"
  proof (cases "x < n")
    case True
    then have "x mod n = x" by simp
    then show ?thesis using True assms by auto
  next
    case False
    then show ?thesis using assms by auto
  qed
qed

lemma level_probability:
  assumes "a \<le> v" and "v < a + int n"
  shows "real (card {x. x < n \<and> a + int (x mod n) = v}) / real (card {x :: nat. x < n})
           = 1 / real n"
  unfolding level_draws [OF assms] by simp

lemma weirdness_level_probability:
  assumes "lo \<le> v" and "v < lo + int n"
    and w: "\<And>x. map_sum id fst (weirdness dn (\<lambda>i. x)) = Inr (lo + int (x mod n))"
  shows "real (card {x. x < n \<and> map_sum id fst (weirdness dn (\<lambda>i. x)) = Inr v})
           / real (card {x :: nat. x < n}) = 1 / real n"
  unfolding w sum.inject by (rule level_probability [OF assms(1,2)])

lemma weirdness_probability:
  "list_all (\<lambda>v. real (card {x. x < 5 \<and>
        map_sum id fst (weirdness ''experimental'' (\<lambda>i. x)) = Inr v})
      / real (card {x :: nat. x < 5}) = 1 / 5) [6, 7, 8, 9, 10]"
  "list_all (\<lambda>v. real (card {x. x < 8 \<and>
        map_sum id fst (weirdness ''generative'' (\<lambda>i. x)) = Inr v})
      / real (card {x :: nat. x < 8}) = 1 / 8) [2, 3, 4, 5, 6, 7, 8, 9]"
proof -
  have e: "map_sum id fst (weirdness ''experimental'' (\<lambda>i. x)) = Inr (6 + int (x mod 5))"
    for x by (simp add: weirdness_value)
  have n: "map_sum id fst (weirdness ''generative'' (\<lambda>i. x)) = Inr (2 + int (x mod 8))"
    for x by (simp add: weirdness_value)
  show "list_all (\<lambda>v. real (card {x. x < 5 \<and>
        map_sum id fst (weirdness ''experimental'' (\<lambda>i. x)) = Inr v})
      / real (card {x :: nat. x < 5}) = 1 / 5) [6, 7, 8, 9, 10]"
    unfolding list_all_iff
  proof
    fix v :: int assume "v \<in> set [6, 7, 8, 9, 10]"
    then have "6 \<le> v" and "v < 6 + int 5" by auto
    from weirdness_level_probability [OF this e]
    show "real (card {x. x < 5 \<and>
        map_sum id fst (weirdness ''experimental'' (\<lambda>i. x)) = Inr v})
      / real (card {x :: nat. x < 5}) = 1 / 5" by simp
  qed
  show "list_all (\<lambda>v. real (card {x. x < 8 \<and>
        map_sum id fst (weirdness ''generative'' (\<lambda>i. x)) = Inr v})
      / real (card {x :: nat. x < 8}) = 1 / 8) [2, 3, 4, 5, 6, 7, 8, 9]"
    unfolding list_all_iff
  proof
    fix v :: int assume "v \<in> set [2, 3, 4, 5, 6, 7, 8, 9]"
    then have "2 \<le> v" and "v < 2 + int 8" by auto
    from weirdness_level_probability [OF this n]
    show "real (card {x. x < 8 \<and>
        map_sum id fst (weirdness ''generative'' (\<lambda>i. x)) = Inr v})
      / real (card {x :: nat. x < 8}) = 1 / 8" by simp
  qed
qed

text \<open>
  Claim C4. In every run, the rows of the domain \<open>experimental\<close> are exactly the rows with
  ids 801 to 900. The weirdness level of the row of zero-based number \<open>k\<close> is computed
  from one draw of the run's random source, the last of the draws the row takes (the
  draw of index \<open>row_start g (k + 1) - 1\<close>; the rows take disjoint, consecutive runs of
  draws): it is 6 plus that draw below 5 for an \<open>experimental\<close> row, hence in [6,10], and 2
  plus that draw below 8 for any other row, hence in [2,9]. The five residues of the draw
  give the five levels 6 to 10 once each, and the eight residues the eight levels 2 to 9
  once each: over the equally likely draws below the width, each level of [6,10] has
  probability 1/5 and each level of [2,9] probability 1/8. (A domain name without
  \<open>experimental\<close> in it, here \<open>generative\<close>, stands for the nine other domains: the level
  depends on the name only through that test.)
\<close>

theorem C4_weirdness_level_range:
  "\<exists>rows g'. generate_rows g = Inr (rows, g') \<and>
     list_all2 (\<lambda>(k, domain_name, d, i, idx) r.
         row_id r = idx \<and>
         (domain_name = ''experimental'') = (801 \<le> idx \<and> idx \<le> 900) \<and>
         str_contains ''experimental'' domain_name = (domain_name = ''experimental'') \<and>
         weirdness_level r =
           (if 801 \<le> idx \<and> idx \<le> 900
            then 6 + int (g (row_start g (Suc k) - 1) mod 5)
            else 2 + int (g (row_start g (Suc k) - 1) mod 8)) \<and>
         (if 801 \<le> idx \<and> idx \<le> 900 then weirdness_level r \<in> {6..10}
          else weirdness_level r \<in> {2..9}))
       (enumerate 0 (positions domains)) rows \<and>
     (\<forall>k. row_start g k < row_start g (Suc k)) \<and>
     (\<forall>domain_name h. map_sum id fst (weirdness domain_name h) =
        Inr (if str_contains ''experimental'' domain_name then 6 + int (h 0 mod 5)
             else 2 + int (h 0 mod 8))) \<and>
     map (\<lambda>x. map_sum id fst (weirdness ''experimental'' (\<lambda>i. x))) [0..<5] =
       [Inr 6, Inr 7, Inr 8, Inr 9, Inr 10] \<and>
     map (\<lambda>x. map_sum id fst (weirdness ''generative'' (\<lambda>i. x))) [0..<8] =
       [Inr 2, Inr 3, Inr 4, Inr 5, Inr 6, Inr 7, Inr 8, Inr 9] \<and>
     list_all (\<lambda>v. real (card {x. x < 5 \<and>
          map_sum id fst (weirdness ''experimental'' (\<lambda>i. x)) = Inr v})
        / real (card {x :: nat. x < 5}) = 1 / 5) [6, 7, 8, 9, 10] \<and>
     list_all (\<lambda>v. real (card {x. x < 8 \<and>
          map_sum id fst (weirdness ''generative'' (\<lambda>i. x)) = Inr v})
        / real (card {x :: nat. x < 8}) = 1 / 8) [2, 3, 4, 5, 6, 7, 8, 9]"
proof -
  from generate_rows_trace [of g] obtain rows where
    r: "generate_rows g = Inr (rows, drop_draws (row_start g 1000) g)" and
    t: "list_all2 (at_row g) (enumerate 0 (positions domains)) rows"
    by (elim exE conjE)
  let ?Q = "\<lambda>(k :: nat, domain_name :: string, d :: domain, i :: nat, idx) r :: row.
         row_id r = idx \<and>
         (domain_name = ''experimental'') = (801 \<le> idx \<and> idx \<le> 900) \<and>
         str_contains ''experimental'' domain_name = (domain_name = ''experimental'') \<and>
         weirdness_level r =
           (if 801 \<le> idx \<and> idx \<le> 900
            then 6 + int (g (row_start g (Suc k) - 1) mod 5)
            else 2 + int (g (row_start g (Suc k) - 1) mod 8)) \<and>
         (if 801 \<le> idx \<and> idx \<le> 900 then weirdness_level r \<in> {6..10}
          else weirdness_level r \<in> {2..9})"
  have rows: "list_all2 ?Q (enumerate 0 (positions domains)) rows"
    using t
  proof (rule at_row_lift)
    fix k dn d i idx r
    assume p: "(dn, d, i, idx) \<in> set (positions domains)"
      and a: "at_row g (k, dn, d, i, idx) r"
    have mem: "(dn, d) \<in> set domains" and idx: "idx = fst (range_dom d) + int i"
      and bound: "int i < snd (range_dom d) + 1 - fst (range_dom d)"
      using positions_mem [OF p] by simp_all
    have ok: "table_ok d" using mem domains_table_ok by (auto simp: list_all_iff)
    have key: "str_contains ''experimental'' dn = (dn = ''experimental'')"
      using mem by (rule experimental_key)
    have own: "str_contains ''experimental'' dn = (801 \<le> idx \<and> idx \<le> 900)"
      using mem by (rule owner_experimental) (use idx bound in simp_all)
    have own': "(dn = ''experimental'') = (801 \<le> idx \<and> idx \<le> 900)"
      using key own by simp
    have rid: "row_id r = idx" using a ok by (rule at_row_fields(1))
    define x where "x = g (row_start g (Suc k) - 1)"
    define c where "c \<longleftrightarrow> 801 \<le> idx \<and> idx \<le> 900"
    have w: "weirdness_level r = (if c then 6 + int (x mod 5) else 2 + int (x mod 8))"
      using at_row_fields(4) [OF a ok]
      unfolding weirdness_draw_index own x_def c_def .
    have "x mod 5 < 5" and "x mod 8 < 8" by simp_all
    then have h5: "int (x mod 5) \<le> 4" and h8: "int (x mod 8) \<le> 7" by linarith+
    have "if c then weirdness_level r \<in> {6..10} else weirdness_level r \<in> {2..9}"
      using w h5 h8 by (cases c) simp_all
    then have rng: "if 801 \<le> idx \<and> idx \<le> 900 then weirdness_level r \<in> {6..10}
          else weirdness_level r \<in> {2..9}"
      unfolding c_def .
    note w' = w [unfolded x_def c_def]
    show "?Q (k, dn, d, i, idx) r"
      unfolding prod.case by (intro conjI rid own' key w' rng)
  qed
  have mono: "\<forall>k. row_start g k < row_start g (Suc k)"
    by (intro allI row_start_less)
  have val: "\<forall>domain_name h. map_sum id fst (weirdness domain_name h) =
        Inr (if str_contains ''experimental'' domain_name then 6 + int (h 0 mod 5)
             else 2 + int (h 0 mod 8))"
    by (intro allI weirdness_value)
  show ?thesis
    by (rule exI [of _ rows], rule exI [of _ "drop_draws (row_start g 1000) g"])
       (intro conjI r rows mono val weirdness_residues weirdness_probability)
qed


lemma role_at:
  assumes "k < 2 ^ 53"
  shows "map_sum id fst (role_word (\<lambda>i. if i = 0 then k else j)) =
           Inr (if 2 ^ 52 < k then ''Synth'' else role_words ! (j mod 8))"
  using assms by (simp add: role_word_total)

lemma role_words_nth_neq_Synth: "role_words ! (j mod 8) \<noteq> ''Synth''"
proof -
  have "j mod 8 < length role_words" by (simp add: role_words_length)
  then have "role_words ! (j mod 8) \<in> set role_words" by (rule nth_mem)
  then show ?thesis using role_words_facts(3) by metis
qed

lemma synth_floats:
  "{k. k < 2 ^ 53 \<and> map_sum id fst (role_word (\<lambda>i. if i = 0 then k else j)) = Inr ''Synth''}
     = {2 ^ 52 <..< 2 ^ 53}"
proof (rule set_eqI)
  fix k :: nat
  show "k \<in> {k. k < 2 ^ 53 \<and>
          map_sum id fst (role_word (\<lambda>i. if i = 0 then k else j)) = Inr ''Synth''}
        \<longleftrightarrow> k \<in> {2 ^ 52 <..< 2 ^ 53}"
  proof (cases "k < 2 ^ 53")
    case True
    show ?thesis
      using True role_words_nth_neq_Synth [of j]
      by (simp only: mem_Collect_eq role_at [OF True] greaterThanLessThan_iff) auto
  next
    case False
    then show ?thesis by simp
  qed
qed

lemma word_pairs:
  assumes "m < 8"
  shows "{(k, j). k < 2 ^ 53 \<and> j < 8 \<and>
            map_sum id fst (role_word (\<lambda>i. if i = 0 then k else j)) = Inr (role_words ! m)}
         = {..2 ^ 52} \<times> {m}"
proof (rule set_eqI)
  fix p :: "nat \<times> nat"
  obtain k j where p: "p = (k, j)" by (cases p)
  have ne: "role_words ! m \<noteq> ''Synth''"
    using role_words_nth_neq_Synth [of m] assms by simp
  have inj: "j < 8 \<Longrightarrow> role_words ! j = role_words ! m \<longleftrightarrow> j = m" for j
    using nth_eq_iff_index_eq [OF role_words_facts(2), of j m] assms
    by (simp add: role_words_length)
  show "p \<in> {(k, j). k < 2 ^ 53 \<and> j < 8 \<and>
            map_sum id fst (role_word (\<lambda>i. if i = 0 then k else j)) = Inr (role_words ! m)}
        \<longleftrightarrow> p \<in> {..2 ^ 52} \<times> {m}"
  proof (cases "k < 2 ^ 53")
    case True
    show ?thesis
    proof (cases "j < 8")
      case j: True
      then have jm: "j mod 8 = j" by simp
      show ?thesis
        unfolding p using True j ne inj [OF j] assms
        by (simp only: mem_Collect_eq prod.case role_at [OF True] jm mem_Sigma_iff
            atMost_iff singleton_iff) auto
    next
      case False
      then show ?thesis using assms by (auto simp: p)
    qed
  next
    case False
    then show ?thesis by (auto simp: p)
  qed
qed

lemma all_pairs: "{(k :: nat, j :: nat). k < 2 ^ 53 \<and> j < 8} = {..<2 ^ 53} \<times> {..<8}"
  by auto

lemma synth_probability:
  "real (card {k. k < 2 ^ 53 \<and>
           map_sum id fst (role_word (\<lambda>i. if i = 0 then k else j)) = Inr ''Synth''})
     / real (card {k :: nat. k < 2 ^ 53}) = 1 / 2 - 1 / 2 ^ 53"
  unfolding synth_floats by simp

lemma word_probability:
  assumes "m < 8"
  shows "real (card {(k, j). k < 2 ^ 53 \<and> j < 8 \<and>
            map_sum id fst (role_word (\<lambda>i. if i = 0 then k else j)) = Inr (role_words ! m)})
     / real (card {(k :: nat, j :: nat). k < 2 ^ 53 \<and> j < 8}) = (1 / 2 + 1 / 2 ^ 53) / 8"
  unfolding word_pairs [OF assms] all_pairs by (simp add: card_cartesian_product)

lemma role_word_residues:
  "map (\<lambda>j. map_sum id fst (role_word (\<lambda>i. if i = 0 then 0 else j))) [0..<8] =
     map Inr role_words"
proof -
  have z: "(0::nat) < 2 ^ 53" by simp
  show ?thesis
    by (simp only: role_at [OF z]) (simp add: role_words_def upt_rec)
qed

text \<open>
  Claim C2, as the specification states it, fails twice. The list the non-\<open>Synth\<close> role
  word is chosen from has 8 distinct entries, not 7: with a first draw of 0 (so that the
  float is not above 0.5) and a second draw of 7, the role word is the eighth entry,
  \<open>Sequencer\<close>, and the first row is named \<open>Modem Sequencer\<close>; over the equally likely
  pairs of a float and an index below 8, \<open>Sequencer\<close> does not have probability 1/14. And
  the test is \<^verbatim>\<open>random.random() > 0.5\<close> on a float \<open>k / 2^53\<close>: at \<open>k = 2^52\<close>, the float
  0.5 itself, the role word is not \<open>Synth\<close>, and over the \<open>2^53\<close> equally likely floats
  \<open>Synth\<close> does not have probability 1/2.
\<close>

theorem C2_counterexample:
  "length role_words = 8 \<and> distinct role_words \<and> card (set role_words) \<noteq> 7 \<and>
   map_sum id fst (role_word (\<lambda>i. if i = 1 then 7 else 0)) = Inr ''Sequencer'' \<and>
   map_sum id (\<lambda>p. name (fst p))
     (make_row ''computer_history'' computer_history 0 1 (\<lambda>i. if i = 1 then 7 else 0))
     = Inr ''Modem Sequencer'' \<and>
   real (card {(k, j). k < 2 ^ 53 \<and> j < 8 \<and>
            map_sum id fst (role_word (\<lambda>i. if i = 0 then k else j)) = Inr ''Sequencer''})
     / real (card {(k :: nat, j :: nat). k < 2 ^ 53 \<and> j < 8}) \<noteq> 1 / 14 \<and>
   map_sum id fst (role_word (\<lambda>i. if i = 0 then 2 ^ 52 else 0)) = Inr ''Engine'' \<and>
   real (card {k. k < 2 ^ 53 \<and>
           map_sum id fst (role_word (\<lambda>i. if i = 0 then k else 0)) = Inr ''Synth''})
     / real (card {k :: nat. k < 2 ^ 53}) \<noteq> 1 / 2"
proof -
  have a: "map_sum id fst (role_word (\<lambda>i. if i = 1 then 7 else 0)) = Inr ''Sequencer''"
    by (simp add: role_word_total role_words_def)
  have f: "features \<noteq> []" by (simp add: features_def)
  have b: "map_sum id (\<lambda>p. name (fst p))
     (make_row ''computer_history'' computer_history 0 1 (\<lambda>i. if i = 1 then 7 else 0))
     = Inr ''Modem Sequencer''"
    by (simp add: make_row_def computer_history_index role_word_total role_words_def
        generate_description_total choice_total f sample_total weirdness_total
        split: prod.splits)
  have s7: "role_words ! 7 = ''Sequencer''" by (simp add: role_words_def)
  have c: "real (card {(k, j). k < 2 ^ 53 \<and> j < 8 \<and>
            map_sum id fst (role_word (\<lambda>i. if i = 0 then k else j)) = Inr ''Sequencer''})
     / real (card {(k :: nat, j :: nat). k < 2 ^ 53 \<and> j < 8}) \<noteq> 1 / 14"
    using word_probability [of 7] unfolding s7 by simp
  have d: "map_sum id fst (role_word (\<lambda>i. if i = 0 then 2 ^ 52 else 0)) = Inr ''Engine''"
    by (simp add: role_word_total role_words_def)
  have e: "real (card {k. k < 2 ^ 53 \<and>
           map_sum id fst (role_word (\<lambda>i. if i = 0 then k else 0)) = Inr ''Synth''})
     / real (card {k :: nat. k < 2 ^ 53}) \<noteq> 1 / 2"
    unfolding synth_probability by simp
  have n7: "card (set role_words) \<noteq> 7" using role_words_facts(4) by simp
  show ?thesis
    by (intro conjI role_words_facts(1) role_words_facts(2) n7 a b c d e)
qed

text \<open>
  Claim C2, amended. In every run, the name of the row of zero-based number \<open>k\<close> is the
  resolved prefix (\<open>prefixes[i mod len]\<close>), a space, and a role word computed from the
  first draws the row takes from the run's random source: \<open>Synth\<close> when the float of
  the first draw exceeds 0.5, and otherwise the entry, at the index given by the second
  draw below 8, of the list of the 8 distinct words Engine, Generator, Oscillator,
  Filter, Processor, Modulator, Resonator, Sequencer, none of which is \<open>Synth\<close>. Over
  the \<open>2^53\<close> equally likely floats \<open>Synth\<close> has probability \<open>1/2 - 2^-53\<close>, and over the
  equally likely pairs of a float and an index below 8 each of the 8 other words has
  probability \<open>(1/2 + 2^-53) / 8\<close>, about 1/16; the 8 residues of the index give the 8
  words once each.
\<close>

theorem C2_name_role_word:
  "\<exists>rows g'. generate_rows g = Inr (rows, g') \<and>
     list_all2 (\<lambda>(k, domain_name, d, i, idx) r.
         row_id r = idx \<and>
         name r = prefixes d ! (i mod length (prefixes d)) @ '' '' @
            (if 2 ^ 52 < g (row_start g k) mod 2 ^ 53 then ''Synth''
             else role_words ! (g (row_start g k + 1) mod 8)))
       (enumerate 0 (positions domains)) rows \<and>
     (\<forall>k. row_start g k + 1 < row_start g (Suc k)) \<and>
     role_words = [''Engine'', ''Generator'', ''Oscillator'', ''Filter'', ''Processor'',
                   ''Modulator'', ''Resonator'', ''Sequencer''] \<and>
     length role_words = 8 \<and> distinct role_words \<and> ''Synth'' \<notin> set role_words \<and>
     (\<forall>j. real (card {k. k < 2 ^ 53 \<and>
              map_sum id fst (role_word (\<lambda>i. if i = 0 then k else j)) = Inr ''Synth''})
            / real (card {k :: nat. k < 2 ^ 53}) = 1 / 2 - 1 / 2 ^ 53) \<and>
     list_all (\<lambda>w. real (card {(k, j). k < 2 ^ 53 \<and> j < 8 \<and>
              map_sum id fst (role_word (\<lambda>i. if i = 0 then k else j)) = Inr w})
            / real (card {(k :: nat, j :: nat). k < 2 ^ 53 \<and> j < 8})
            = (1 / 2 + 1 / 2 ^ 53) / 8) role_words \<and>
     map (\<lambda>j. map_sum id fst (role_word (\<lambda>i. if i = 0 then 0 else j))) [0..<8] =
       map Inr role_words"
proof -
  from generate_rows_trace [of g] obtain rows where
    r: "generate_rows g = Inr (rows, drop_draws (row_start g 1000) g)" and
    t: "list_all2 (at_row g) (enumerate 0 (positions domains)) rows"
    by (elim exE conjE)
  let ?Q = "\<lambda>(k :: nat, domain_name :: string, d :: domain, i :: nat, idx) r :: row.
         row_id r = idx \<and>
         name r = prefixes d ! (i mod length (prefixes d)) @ '' '' @
            (if 2 ^ 52 < g (row_start g k) mod 2 ^ 53 then ''Synth''
             else role_words ! (g (row_start g k + 1) mod 8))"
  have rows: "list_all2 ?Q (enumerate 0 (positions domains)) rows"
    using t
  proof (rule at_row_lift)
    fix k dn d i idx r
    assume p: "(dn, d, i, idx) \<in> set (positions domains)"
      and a: "at_row g (k, dn, d, i, idx) r"
    have mem: "(dn, d) \<in> set domains" using positions_mem [OF p] by simp
    have ok: "table_ok d" using mem domains_table_ok by (auto simp: list_all_iff)
    show "?Q (k, dn, d, i, idx) r"
      unfolding prod.case by (intro conjI at_row_fields(1,2) [OF a ok])
  qed
  have win: "\<forall>k. row_start g k + 1 < row_start g (Suc k)" by simp
  have lst: "role_words = [''Engine'', ''Generator'', ''Oscillator'', ''Filter'',
     ''Processor'', ''Modulator'', ''Resonator'', ''Sequencer'']"
    by (simp add: role_words_def)
  have ps: "\<forall>j. real (card {k. k < 2 ^ 53 \<and>
              map_sum id fst (role_word (\<lambda>i. if i = 0 then k else j)) = Inr ''Synth''})
            / real (card {k :: nat. k < 2 ^ 53}) = 1 / 2 - 1 / 2 ^ 53"
    by (intro allI synth_probability)
  have pw: "list_all (\<lambda>w. real (card {(k, j). k < 2 ^ 53 \<and> j < 8 \<and>
              map_sum id fst (role_word (\<lambda>i. if i = 0 then k else j)) = Inr w})
            / real (card {(k :: nat, j :: nat). k < 2 ^ 53 \<and> j < 8})
            = (1 / 2 + 1 / 2 ^ 53) / 8) role_words"
    unfolding list_all_length role_words_length using word_probability by blast
  show ?thesis
    by (rule exI [of _ rows], rule exI [of _ "drop_draws (row_start g 1000) g"])
       (intro conjI r rows win lst role_words_facts(1) role_words_facts(2)
          role_words_facts(3) ps pw role_word_residues)
qed


lemma lower_char_code_point:
  "(of_char (lower_char c) :: nat) =
     (if of_char c \<in> {65..90} \<union> {192..214} \<union> {216..222 :: nat}
      then of_char c + 32 else of_char c)"
proof -
  define n where "n = (of_char c :: nat)"
  define up where "up \<longleftrightarrow> (65 \<le> n \<and> n \<le> 90) \<or> (192 \<le> n \<and> n \<le> 222 \<and> n \<noteq> 215)"
  have l: "lower_char c = (if up then char_of (n + 32) else c)"
    by (simp add: lower_char_def Let_def n_def up_def)
  have u: "up \<longleftrightarrow> n \<in> {65..90} \<union> {192..214} \<union> {216..222}"
    unfolding up_def by auto
  show ?thesis
  proof (cases up)
    case True
    then have "n + 32 < 256" unfolding up_def by auto
    then have "(of_char (char_of (n + 32)) :: nat) = n + 32" by simp
    then show ?thesis using True u by (simp add: l n_def [symmetric])
  next
    case False
    then show ?thesis using u by (simp add: l n_def [symmetric])
  qed
qed

lemma lower_examples:
  "lower ''TB-303'' = ''tb-303''"
  "lower ''Conway Life'' = ''conway life''"
  "lower [CHR 0xDE, CHR ''j'', CHR 0xF3, CHR 0xF0] = [CHR 0xFE, CHR ''j'', CHR 0xF3, CHR 0xF0]"
  by (simp_all add: lower_def lower_char_def char_of_eq_iff)

lemma templates_example:
  "templates ''TB-303'' =
     [''TB-303-inspired synthesis with unique timbral characteristics'',
      ''Models tb-303 behavior using advanced DSP techniques'',
      ''TB-303 patterns drive oscillator and modulation parameters'',
      ''Physical modeling of tb-303 acoustic properties'',
      ''Granular processing inspired by tb-303 textures'',
      ''FM synthesis capturing tb-303 harmonic relationships'',
      ''Wavetable morphing based on tb-303 waveforms'',
      ''Additive synthesis recreating tb-303 spectra'',
      ''Feedback network simulating tb-303 dynamics'',
      ''Hybrid synthesis combining multiple tb-303 characteristics'']"
  by (simp add: templates_def lower_examples)

lemma templates_signature:
  "map (\<lambda>t. (length t, take 3 (rev t))) (templates p) =
     [(55 + length p, ''sci''), (46 + length p, ''seu''), (52 + length p, ''sre''),
      (41 + length p, ''sei''), (41 + length p, ''ser''), (46 + length p, ''spi''),
      (38 + length p, ''smr''), (38 + length p, ''art''), (37 + length p, ''sci''),
      (52 + length p, ''sci'')]"
  by (simp add: templates_def lower_def)

lemma templates_distinct: "distinct (templates p)"
proof -
  have "distinct (map (\<lambda>t. (length t, take 3 (rev t))) (templates p))"
    unfolding templates_signature by simp
  then show ?thesis by (simp add: distinct_map)
qed

lemma nth_draws:
  assumes "distinct seq" and "m < length seq"
  shows "{x. x < length seq \<and> seq ! (x mod length seq) = seq ! m} = {m}"
proof (rule set_eqI)
  fix x :: nat
  show "x \<in> {x. x < length seq \<and> seq ! (x mod length seq) = seq ! m} \<longleftrightarrow> x \<in> {m}"
  proof (cases "x < length seq")
    case True
    then have "x mod length seq = x" by simp
    then show ?thesis
      using True nth_eq_iff_index_eq [OF assms(1) True assms(2)] by simp
  next
    case False
    then show ?thesis using assms(2) by auto
  qed
qed

lemma description_value:
  "map_sum id fst (generate_description prefix dn h) = Inr (templates prefix ! (h 0 mod 10))"
  by (simp add: generate_description_total)

lemma description_probability:
  "list_all (\<lambda>t. real (card {x. x < 10 \<and>
        map_sum id fst (generate_description prefix dn (\<lambda>i. x)) = Inr t})
      / real (card {x :: nat. x < 10}) = 1 / 10) (templates prefix)"
  unfolding list_all_length
proof (intro allI impI)
  fix m assume "m < length (templates prefix)"
  then have m: "m < length (templates prefix)" .
  have "{x. x < 10 \<and> templates prefix ! (x mod 10) = templates prefix ! m} = {m}"
    using nth_draws [OF templates_distinct m] by (simp only: templates_length)
  then show "real (card {x. x < 10 \<and>
        map_sum id fst (generate_description prefix dn (\<lambda>i. x)) = Inr (templates prefix ! m)})
      / real (card {x :: nat. x < 10}) = 1 / 10"
    by (simp only: description_value sum.inject) simp
qed

lemma description_residues:
  "map (\<lambda>x. map_sum id fst (generate_description prefix dn (\<lambda>i. x))) [0..<10] =
     map Inr (templates prefix)"
  by (simp only: description_value) (simp add: templates_def upt_rec)

lemma description_draw_index:
  "row_start g k + role_draws (drop_draws (row_start g k) g) = row_start g (Suc k) - 6"
  by simp

text \<open>
  Claim C9. The description is the entry, at an index drawn below 10, of a list of exactly
  10 sentences, pairwise different whatever the prefix; over the equally likely draws
  below 10 each sentence has probability 1/10. Each sentence is a fixed text with one
  hole filled with the row's prefix, as it is in the first and third template and
  lower-cased in the other eight. Lower-casing maps every character through
  \<open>lower_char\<close>, which moves the code points of the capitals (65 to 90, 192 to 214 and
  216 to 222) up by 32 and leaves every other code point alone; for the prefix \<open>TB-303\<close>
  the ten sentences are the ones written out below. The domain name passed to
  \<open>generate_description\<close> has no influence on the result. In every run, the description
  of the row of zero-based number \<open>k\<close> is the sentence for the row's resolved prefix at the
  index given by one draw of the run's random source, the sixth from the end of the
  draws the row takes.
\<close>

theorem C9_description_templates:
  "(\<forall>prefix domain_name h.
      generate_description prefix domain_name h =
        Inr (templates prefix ! (h 0 mod 10), \<lambda>i. h (Suc i))) \<and>
   (\<forall>prefix. templates prefix = map (fill prefix) template_shapes \<and>
             length (templates prefix) = 10 \<and> distinct (templates prefix)) \<and>
   length template_shapes = 10 \<and> distinct template_shapes \<and>
   map (\<lambda>(before, lowered, after). lowered) template_shapes =
     [False, True, False, True, True, True, True, True, True, True] \<and>
   (\<forall>s. lower s = map lower_char s) \<and>
   (\<forall>c. (of_char (lower_char c) :: nat) =
      (if of_char c \<in> {65..90} \<union> {192..214} \<union> {216..222 :: nat}
       then of_char c + 32 else of_char c)) \<and>
   lower [CHR 0xDE, CHR ''j'', CHR 0xF3, CHR 0xF0] = [CHR 0xFE, CHR ''j'', CHR 0xF3, CHR 0xF0] \<and>
   templates ''TB-303'' =
     [''TB-303-inspired synthesis with unique timbral characteristics'',
      ''Models tb-303 behavior using advanced DSP techniques'',
      ''TB-303 patterns drive oscillator and modulation parameters'',
      ''Physical modeling of tb-303 acoustic properties'',
      ''Granular processing inspired by tb-303 textures'',
      ''FM synthesis capturing tb-303 harmonic relationships'',
      ''Wavetable morphing based on tb-303 waveforms'',
      ''Additive synthesis recreating tb-303 spectra'',
      ''Feedback network simulating tb-303 dynamics'',
      ''Hybrid synthesis combining multiple tb-303 characteristics''] \<and>
   (\<forall>prefix domain_name domain_name' h.
      generate_description prefix domain_name h =
      generate_description prefix domain_name' h) \<and>
   (\<forall>prefix domain_name.
      map (\<lambda>x. map_sum id fst (generate_description prefix domain_name (\<lambda>i. x))) [0..<10] =
        map Inr (templates prefix) \<and>
      list_all (\<lambda>t. real (card {x. x < 10 \<and>
            map_sum id fst (generate_description prefix domain_name (\<lambda>i. x)) = Inr t})
          / real (card {x :: nat. x < 10}) = 1 / 10) (templates prefix)) \<and>
   (\<exists>rows g'. generate_rows g = Inr (rows, g') \<and>
      list_all2 (\<lambda>(k, domain_name, d, i, idx) r.
          row_id r = idx \<and>
          description r =
             templates (prefixes d ! (i mod length (prefixes d))) !
               (g (row_start g (Suc k) - 6) mod 10))
        (enumerate 0 (positions domains)) rows)"
proof -
  from generate_rows_trace [of g] obtain rows where
    r: "generate_rows g = Inr (rows, drop_draws (row_start g 1000) g)" and
    t: "list_all2 (at_row g) (enumerate 0 (positions domains)) rows"
    by (elim exE conjE)
  let ?Q = "\<lambda>(k :: nat, domain_name :: string, d :: domain, i :: nat, idx) r :: row.
          row_id r = idx \<and>
          description r =
             templates (prefixes d ! (i mod length (prefixes d))) !
               (g (row_start g (Suc k) - 6) mod 10)"
  have rows: "list_all2 ?Q (enumerate 0 (positions domains)) rows"
    using t
  proof (rule at_row_lift)
    fix k dn d i idx r
    assume p: "(dn, d, i, idx) \<in> set (positions domains)"
      and a: "at_row g (k, dn, d, i, idx) r"
    have mem: "(dn, d) \<in> set domains" using positions_mem [OF p] by simp
    have ok: "table_ok d" using mem domains_table_ok by (auto simp: list_all_iff)
    note de = at_row_fields(3) [OF a ok, unfolded description_draw_index]
    show "?Q (k, dn, d, i, idx) r"
      unfolding prod.case by (intro conjI at_row_fields(1) [OF a ok] de)
  qed
  have run: "\<exists>rows g'. generate_rows g = Inr (rows, g') \<and>
      list_all2 ?Q (enumerate 0 (positions domains)) rows"
    by (rule exI [of _ rows], rule exI [of _ "drop_draws (row_start g 1000) g"])
       (intro conjI r rows)
  have a: "\<forall>prefix domain_name h.
      generate_description prefix domain_name h =
        Inr (templates prefix ! (h 0 mod 10), \<lambda>i. h (Suc i))"
    by (intro allI generate_description_total)
  have b: "\<forall>prefix. templates prefix = map (fill prefix) template_shapes \<and>
             length (templates prefix) = 10 \<and> distinct (templates prefix)"
    by (intro allI conjI templates_shapes templates_length templates_distinct)
  have c: "\<forall>prefix domain_name domain_name' h.
      generate_description prefix domain_name h =
      generate_description prefix domain_name' h"
    by (simp only: generate_description_def) simp
  have l: "\<forall>s. lower s = map lower_char s" by (simp add: lower_def)
  have lc: "\<forall>c. (of_char (lower_char c) :: nat) =
      (if of_char c \<in> {65..90} \<union> {192..214} \<union> {216..222 :: nat}
       then of_char c + 32 else of_char c)"
    by (intro allI lower_char_code_point)
  have u: "\<forall>prefix domain_name.
      map (\<lambda>x. map_sum id fst (generate_description prefix domain_name (\<lambda>i. x))) [0..<10] =
        map Inr (templates prefix) \<and>
      list_all (\<lambda>t. real (card {x. x < 10 \<and>
            map_sum id fst (generate_description prefix domain_name (\<lambda>i. x)) = Inr t})
          / real (card {x :: nat. x < 10}) = 1 / 10) (templates prefix)"
    by (intro allI conjI description_residues description_probability)
  show ?thesis
    by (intro conjI a b c l lc u template_shapes_facts lower_examples(3)
          templates_example run)
qed


section \<open>Reading the file back\<close>

lemma split_crlf_line:
  "CHR 0x0D \<notin> set l \<Longrightarrow>
   split_crlf (l @ CHR 0x0D # CHR 0x0A # rest) = l # split_crlf rest"
proof (induction l)
  case Nil
  show ?case by simp
next
  case (Cons c l)
  then have c: "c \<noteq> CHR 0x0D" and ih: "split_crlf (l @ CHR 0x0D # CHR 0x0A # rest) = l # split_crlf rest"
    by auto
  obtain d cs where e: "l @ CHR 0x0D # CHR 0x0A # rest = d # cs"
    by (cases "l @ CHR 0x0D # CHR 0x0A # rest") simp_all
  have "split_crlf (c # d # cs) = (c # l) # split_crlf rest"
    using c ih unfolding e by simp
  then show ?case by (simp add: e)
qed

lemma split_crlf_lines:
  "list_all (\<lambda>l. CHR 0x0D \<notin> set l) ls \<Longrightarrow>
   split_crlf (concat (map (\<lambda>l. l @ [CHR 0x0D, CHR 0x0A]) ls)) = ls @ [[]]"
proof (induction ls)
  case Nil
  show ?case by simp
next
  case (Cons l ls)
  then have l: "CHR 0x0D \<notin> set l"
    and ih: "split_crlf (concat (map (\<lambda>l. l @ [CHR 0x0D, CHR 0x0A]) ls)) = ls @ [[]]"
    by simp_all
  show ?case
    using split_crlf_line [OF l, of "concat (map (\<lambda>l. l @ [CHR 0x0D, CHR 0x0A]) ls)"] ih
    by simp
qed

lemma plain_no_cr: "plain s \<Longrightarrow> CHR 0x0D \<notin> set s"
  by (auto simp: plain_def list_all_iff csv_special_def)

lemma line_no_cr:
  assumes "list_all plain flds"
  shows "CHR 0x0D \<notin> set (join '','' flds)"
proof -
  have "CHR 0x0D \<notin> set (join sep flds)" if "CHR 0x0D \<notin> set sep" for sep
    using assms that
    by (induction sep flds rule: join.induct) (auto dest: plain_no_cr)
  then show ?thesis by simp
qed

lemma nat_of_str_snoc: "nat_of_str (s @ [c]) = 10 * nat_of_str s + (of_char c - 48)"
  by (simp add: nat_of_str_def)

lemma digit_value: "d < 10 \<Longrightarrow> (of_char (char_of (48 + d :: nat)) :: nat) - 48 = d"
  by simp

lemma nat_of_str_str_nat: "nat_of_str (str_nat n) = n"
proof (induction n rule: str_nat.induct)
  case (1 n)
  show ?case
  proof (cases "n < 10")
    case True
    then have "str_nat n = [] @ [char_of (48 + n)]" by (subst str_nat.simps) simp
    then show ?thesis
      using digit_value [OF True] by (simp only: nat_of_str_snoc) (simp add: nat_of_str_def)
  next
    case False
    then have e: "str_nat n = str_nat (n div 10) @ [char_of (48 + n mod 10)]"
      by (subst str_nat.simps) simp
    have "n mod 10 < 10" by simp
    then show ?thesis
      unfolding e nat_of_str_snoc using 1 [OF False] digit_value [of "n mod 10"] by simp
  qed
qed

lemma nat_of_str_str_int: "0 \<le> n \<Longrightarrow> int (nat_of_str (str_int n)) = n"
  by (simp add: str_int_def nat_of_str_str_nat del: str_nat.simps)

lemma rows_plain:
  assumes "list_all2 made (positions domains) rows"
  shows "list_all (\<lambda>r. list_all plain (row_fields r)) rows"
proof -
  have "list_all2 (\<lambda>p r. list_all plain (row_fields r)) (positions domains) rows"
    using assms
  proof (rule made_lift)
    fix dn d i idx r
    assume p: "(dn, d, i, idx) \<in> set (positions domains)" and md: "made (dn, d, i, idx) r"
    have mem: "(dn, d) \<in> set domains" using positions_mem [OF p] by simp
    have ok: "table_ok d" using mem domains_table_ok by (auto simp: list_all_iff)
    have pl: "table_plain d" using mem domains_table_plain by (auto simp: list_all_iff)
    show "list_all plain (row_fields r)" using md ok pl by (rule made_fields_plain)
  qed
  then show ?thesis by (auto simp: list_all2_conv_all_nth list_all_length)
qed

lemma file_lines:
  assumes "list_all (\<lambda>r. list_all plain (row_fields r)) rows"
  shows "split_crlf (writerow header @ concat (map (\<lambda>r. writerow (row_fields r)) rows)) =
     ''id,name,description,synthesis_type,key_feature,genre_tags,weirdness_level''
       # map (\<lambda>r. join '','' (row_fields r)) rows @ [[]]"
proof -
  let ?hl = "''id,name,description,synthesis_type,key_feature,genre_tags,weirdness_level''"
  let ?ls = "?hl # map (\<lambda>r. join '','' (row_fields r)) rows"
  have w: "writerow (row_fields r) = join '','' (row_fields r) @ [CHR 0x0D, CHR 0x0A]"
    if "r \<in> set rows" for r
  proof -
    have fp: "list_all plain (row_fields r)" using assms that by (auto simp: list_all_iff)
    have "length (row_fields r) = 7" by (simp add: row_fields_def)
    then have "row_fields r \<noteq> [[]]" by auto
    with fp show ?thesis by (rule writerow_plain)
  qed
  have m: "map (\<lambda>r. writerow (row_fields r)) rows =
        map (\<lambda>r. join '','' (row_fields r) @ [CHR 0x0D, CHR 0x0A]) rows"
    by (rule map_cong [OF refl]) (rule w)
  have t: "writerow header @ concat (map (\<lambda>r. writerow (row_fields r)) rows) =
        concat (map (\<lambda>l. l @ [CHR 0x0D, CHR 0x0A]) ?ls)"
    by (simp add: writerow_header comp_def m)
  have "CHR 0x0D \<notin> set ?hl" by simp
  moreover have "list_all (\<lambda>l. CHR 0x0D \<notin> set l) (map (\<lambda>r. join '','' (row_fields r)) rows)"
    using assms line_no_cr by (auto simp: list_all_iff)
  ultimately have "list_all (\<lambda>l. CHR 0x0D \<notin> set l) ?ls" by simp
  then have "split_crlf (concat (map (\<lambda>l. l @ [CHR 0x0D, CHR 0x0A]) ?ls)) = ?ls @ [[]]"
    by (rule split_crlf_lines)
  then show ?thesis unfolding t by simp
qed

lemma file_ids:
  assumes pl: "list_all (\<lambda>r. list_all plain (row_fields r)) rows"
    and nn: "list_all (\<lambda>r. 0 \<le> row_id r) rows"
  shows "map (\<lambda>l. int (nat_of_str (hd (split_on CHR '','' l))))
           (map (\<lambda>r. join '','' (row_fields r)) rows) = map row_id rows"
proof -
  have "int (nat_of_str (hd (split_on CHR '','' (join '','' (row_fields r))))) = row_id r"
    if "r \<in> set rows" for r
  proof -
    have fp: "list_all plain (row_fields r)" using pl that by (auto simp: list_all_iff)
    have "length (row_fields r) = 7" by (simp add: row_fields_def)
    then have "row_fields r \<noteq> []" by auto
    with fp have "split_on CHR '','' (join '','' (row_fields r)) = row_fields r"
      by (rule split_fields)
    moreover have "hd (row_fields r) = str_int (row_id r)" by (simp add: row_fields_def)
    moreover have "0 \<le> row_id r" using nn that by (auto simp: list_all_iff)
    ultimately show ?thesis by (simp add: nat_of_str_str_int del: str_nat.simps)
  qed
  then show ?thesis by (simp add: comp_def cong: map_cong)
qed

lemma header_fields:
  "split_on CHR '','' ''id,name,description,synthesis_type,key_feature,genre_tags,weirdness_level''
     = header"
  by (simp add: header_def)

lemma file_fields:
  assumes "list_all (\<lambda>r. list_all plain (row_fields r)) rows"
  shows "map (split_on CHR '','') (map (\<lambda>r. join '','' (row_fields r)) rows) = map row_fields rows"
proof -
  have "split_on CHR '','' (join '','' (row_fields r)) = row_fields r" if "r \<in> set rows" for r
  proof -
    have fp: "list_all plain (row_fields r)" using assms that by (auto simp: list_all_iff)
    have "length (row_fields r) = 7" by (simp add: row_fields_def)
    then have "row_fields r \<noteq> []" by auto
    with fp show ?thesis by (rule split_fields)
  qed
  then show ?thesis by (simp add: comp_def cong: map_cong)
qed

text \<open>
  Claim C1. Every run, whatever the random source, returns normally and writes a text
  that, cut at its CR LF pairs, is the header line
  \<^verbatim>\<open>id,name,description,synthesis_type,key_feature,genre_tags,weirdness_level\<close>, then
  one line for each of the rows the loop made, in the order it made them, then the empty
  piece after the last CR LF: 1002 pieces, that is 1 header row and 1000 data rows. Cutting
  the lines at their commas gives back the seven header names and the seven fields of every
  row; the decimal numbers read from the first field of the 1000 data lines are
  1, 2, ..., 1000 in this order, hence exactly the set {1..1000} and strictly increasing;
  the rows themselves carry the same ids; and the ten domains are visited in declaration
  order with the contiguous ranges 1-100, 101-200, ..., 901-1000.
\<close>

theorem C1_row_count_and_ids:
  "\<exists>rows out g'. generate_rows g = Inr (rows, g') \<and>
     generate g = Inr (out, g') \<and>
     split_crlf out =
       ''id,name,description,synthesis_type,key_feature,genre_tags,weirdness_level''
         # map (\<lambda>r. join '','' (row_fields r)) rows @ [[]] \<and>
     length (split_crlf out) = 1002 \<and>
     map (split_on CHR '','') (butlast (split_crlf out)) = header # map row_fields rows \<and>
     map (\<lambda>l. int (nat_of_str (hd (split_on CHR '','' l)))) (butlast (tl (split_crlf out)))
       = [1..1000] \<and>
     set (map (\<lambda>l. int (nat_of_str (hd (split_on CHR '','' l)))) (butlast (tl (split_crlf out))))
       = {1..1000} \<and>
     sorted_wrt (<)
       (map (\<lambda>l. int (nat_of_str (hd (split_on CHR '','' l)))) (butlast (tl (split_crlf out)))) \<and>
     length rows = 1000 \<and>
     map row_id rows = [1..1000] \<and>
     set (map row_id rows) = {1..1000} \<and>
     sorted_wrt (<) (map row_id rows) \<and>
     map (\<lambda>(domain_name, d). (domain_name, range_dom d)) domains =
       [(''computer_history'', (1, 100)), (''vintage_synths'', (101, 200)),
        (''natural_phenomena'', (201, 300)), (''industrial'', (301, 400)),
        (''scientific'', (401, 500)), (''world_instruments'', (501, 600)),
        (''space_cosmic'', (601, 700)), (''biological'', (701, 800)),
        (''experimental'', (801, 900)), (''generative'', (901, 1000))]"
proof -
  let ?hl = "''id,name,description,synthesis_type,key_feature,genre_tags,weirdness_level''"
  let ?num = "\<lambda>l. int (nat_of_str (hd (split_on CHR '','' l)))"
  obtain rows g' where r: "generate_rows g = Inr (rows, g')"
    and m: "list_all2 made (positions domains) rows"
    using generate_rows_made by blast
  define out where "out = writerow header @ concat (map (\<lambda>r. writerow (row_fields r)) rows)"
  define lines where "lines = map (\<lambda>r. join '','' (row_fields r)) rows"
  have ids: "map row_id rows = [1..1000]"
    using made_ids [OF m] by (simp only: ids_positions)
  have len: "length rows = 1000"
  proof -
    have "length (map row_id rows) = length [1..1000]" by (simp only: ids)
    then show ?thesis by (simp del: upto_rec_numeral)
  qed
  have set: "set (map row_id rows) = {1..1000}" by (simp only: ids set_upto)
  have sorted: "sorted_wrt (<) (map row_id rows)" by (simp only: ids sorted_wrt_upto)
  have gen: "generate g = Inr (out, g')"
    by (simp add: generate_def r out_def)
  have pl: "list_all (\<lambda>r. list_all plain (row_fields r)) rows"
    using m by (rule rows_plain)
  have nn: "list_all (\<lambda>r. 0 \<le> row_id r) rows"
  proof -
    have "0 \<le> row_id x" if "x \<in> set rows" for x
    proof -
      have "row_id x \<in> set (map row_id rows)" using that by simp
      then show ?thesis unfolding set by simp
    qed
    then show ?thesis by (simp add: list_all_iff)
  qed
  have sp: "split_crlf out = ?hl # lines @ [[]]"
    unfolding out_def lines_def using pl by (rule file_lines)
  have bl: "butlast (split_crlf out) = ?hl # lines"
    unfolding sp by (simp only: butlast_snoc append_Cons [symmetric])
  have btl: "butlast (tl (split_crlf out)) = lines"
    unfolding sp by (simp only: list.sel butlast_snoc)
  have slen: "length (split_crlf out) = 1002"
    unfolding sp by (simp add: lines_def len)
  have flds: "map (split_on CHR '','') (butlast (split_crlf out)) = header # map row_fields rows"
    unfolding bl lines_def using file_fields [OF pl] header_fields by (simp only: list.map)
  have fids: "map ?num (butlast (tl (split_crlf out))) = [1..1000]"
    unfolding btl lines_def using file_ids [OF pl nn] by (simp only: ids)
  have fset: "set (map ?num (butlast (tl (split_crlf out)))) = {1..1000}"
    by (simp only: fids set_upto)
  have fsorted: "sorted_wrt (<) (map ?num (butlast (tl (split_crlf out))))"
    by (simp only: fids sorted_wrt_upto)
  have order: "map (\<lambda>(domain_name, d). (domain_name, range_dom d)) domains =
       [(''computer_history'', (1, 100)), (''vintage_synths'', (101, 200)),
        (''natural_phenomena'', (201, 300)), (''industrial'', (301, 400)),
        (''scientific'', (401, 500)), (''world_instruments'', (501, 600)),
        (''space_cosmic'', (601, 700)), (''biological'', (701, 800)),
        (''experimental'', (801, 900)), (''generative'', (901, 1000))]"
    by (simp add: domains_def ranges)
  show ?thesis
    by (rule exI [of _ rows], rule exI [of _ out], rule exI [of _ g'])
       (intro conjI r gen sp [unfolded lines_def] slen flds fids fset fsorted
          len ids set sorted order)
qed

end
